theory Spec2Isabelle
  imports Main "HOL-Library.Word"
begin

unbundle bit_operations_syntax

section \<open>Machine types, constants and faults\<close>

text \<open>
  Pintos runs on 32-bit x86: pointers, \<open>size_t\<close>, \<open>uint32_t\<close>, \<open>swap_index_t\<close> and
  \<open>block_sector_t\<close> are 32-bit words and their arithmetic wraps. \<open>NULL\<close> is the word 0.
  An \<open>int\<close> (and \<open>mmapid_t\<close>, which is \<open>typedef int\<close>) is a 32-bit word in two's
  complement: \<open>sint\<close> reads it for the signed comparisons, \<open>+\<close> wraps and -1 is the
  word of all ones.
  Memory is read and written one block sector at a time by the code modelled here, so it
  is kept as a function from the address of a sector-sized chunk to its bytes.
\<close>

type_synonym addr = "32 word"
type_synonym size_t = "32 word"
type_synonym swap_index_t = "32 word"
type_synonym block_sector_t = "32 word"
type_synonym sector_data = "8 word list"
type_synonym memory = "addr \<Rightarrow> sector_data"
type_synonym tid = nat
type_synonym file_ptr = nat
type_synonym pd_ptr = "32 word"
type_synonym supt_ptr = "32 word"
type_synonym c_int = "32 word"
type_synonym mmapid_t = "32 word"

text \<open>
  Every \<open>PANIC\<close> and failed \<open>ASSERT\<close> of the source stops the kernel; the model returns
  it as a value. \<open>Undefined_behaviour\<close> marks the places where the source dereferences a
  pointer that does not point to a live object (a freed frame-table entry, or an owner
  read from the bytes around the list's tail sentinel).
\<close>

datatype fault =
    Assertion_failed
  | Access_past_end_of_device
  | Swap_block_missing
  | Swap_in_unassigned
  | Swap_free_unassigned
  | Evict_empty
  | Cannot_evict
  | Free_missing
  | Pin_missing
  | Duplicate_zeropage
  | Duplicate_filesys
  | Page_missing
  | Invalid_status
  | Kernel_page_fault
  | Undefined_behaviour

text \<open>
  Modelled from the spec: \<open>threads/vaddr.h\<close> and \<open>devices/block.h\<close> are not under src/.
  The spec gives \<open>PGSIZE\<close> as 4096 and \<open>SPP = PGSIZE / SECTOR_SIZE\<close>; the sector size
  is 512 and user addresses lie below \<open>PHYS_BASE\<close>.
\<close>

definition PGSIZE :: "32 word" where
  "PGSIZE = 4096"

definition BLOCK_SECTOR_SIZE :: "32 word" where
  "BLOCK_SECTOR_SIZE = 512"

definition PHYS_BASE :: addr where
  "PHYS_BASE = 0xc0000000"

definition SECTORS_PER_PAGE :: size_t where
  "SECTORS_PER_PAGE = PGSIZE div BLOCK_SECTOR_SIZE"

definition pg_ofs :: "addr \<Rightarrow> 32 word" where
  "pg_ofs va = va AND 0xfff"

definition is_kernel_vaddr :: "addr \<Rightarrow> bool" where
  "is_kernel_vaddr va \<longleftrightarrow> PHYS_BASE \<le> va"

definition page_chunks :: "addr \<Rightarrow> addr list" where
  "page_chunks page = map (\<lambda>i. page + BLOCK_SECTOR_SIZE * of_nat i) [0 ..< unat SECTORS_PER_PAGE]"

definition memset_page :: "memory \<Rightarrow> addr \<Rightarrow> memory" where
  "memset_page m page = fold (\<lambda>a m'. m'(a := replicate (unat BLOCK_SECTOR_SIZE) 0)) (page_chunks page) m"

section \<open>Swap store (vm/swap.c)\<close>

text \<open>
  \<open>swap_block\<close> is the device (its size in sectors and its contents), \<open>swap_available\<close>
  the bitmap (True = free) and \<open>swap_size\<close> the slot count.
\<close>

record swap_store =
  block_size :: block_sector_t
  block_data :: "block_sector_t \<Rightarrow> sector_data"
  swap_available :: "bool list"
  swap_size :: size_t

text \<open>
  Modelled from the spec: \<open>lib/kernel/bitmap.c\<close> is not under src/. \<open>bitmap_scan b 0 1 v\<close>
  finds the first bit equal to \<open>v\<close> (spec 4.1: "find the first free slot"). The spec does
  not name what it gives when no bit matches; the model takes \<open>BITMAP_ERROR\<close>, the largest
  \<open>size_t\<close>, which is no index of any bitmap. \<open>bitmap_set\<close> and \<open>bitmap_test\<close> assert
  that the index is inside the bitmap (spec 4.1: use of an index \<open>\<ge> slot_count\<close> is fatal).
\<close>

definition BITMAP_ERROR :: size_t where
  "BITMAP_ERROR = - 1"

definition bitmap_scan :: "bool list \<Rightarrow> bool \<Rightarrow> size_t" where
  "bitmap_scan b v =
     (if v \<in> set b then of_nat (length (takeWhile (\<lambda>x. x \<noteq> v) b)) else BITMAP_ERROR)"

definition bitmap_set :: "bool list \<Rightarrow> size_t \<Rightarrow> bool \<Rightarrow> fault + bool list" where
  "bitmap_set b idx v =
     (if unat idx < length b then Inr (b[unat idx := v]) else Inl Assertion_failed)"

definition bitmap_test :: "bool list \<Rightarrow> size_t \<Rightarrow> fault + bool" where
  "bitmap_test b idx =
     (if unat idx < length b then Inr (b ! unat idx) else Inl Assertion_failed)"

text \<open>
  Modelled from the spec: \<open>devices/block.c\<close> is not under src/. \<open>block_read\<close> and
  \<open>block_write\<close> transfer one sector (spec 6). The spec does not say what a sector at or
  past the end of the device does; the model takes it as fatal, as the spec takes every
  use of a slot index \<open>\<ge> slot_count\<close> (4.1).
\<close>

definition block_write :: "swap_store \<Rightarrow> block_sector_t \<Rightarrow> sector_data \<Rightarrow> fault + swap_store" where
  "block_write s sector buf =
     (if block_size s \<le> sector then Inl Access_past_end_of_device
      else Inr (s\<lparr>block_data := (block_data s)(sector := buf)\<rparr>))"

definition block_read :: "swap_store \<Rightarrow> block_sector_t \<Rightarrow> fault + sector_data" where
  "block_read s sector =
     (if block_size s \<le> sector then Inl Access_past_end_of_device
      else Inr (block_data s sector))"

text \<open>\<open>vm_swap_init\<close>; the argument is \<open>block_get_role (BLOCK_SWAP)\<close>, \<open>None\<close> for \<open>NULL\<close>.\<close>

definition vm_swap_init ::
  "(block_sector_t \<times> (block_sector_t \<Rightarrow> sector_data)) option \<Rightarrow> fault + swap_store" where
  "vm_swap_init dev =
     (if \<not> 0 < SECTORS_PER_PAGE then Inl Assertion_failed
      else case dev of
        None \<Rightarrow> Inl Swap_block_missing
      | Some (sz, d) \<Rightarrow>
          Inr \<lparr>block_size = sz, block_data = d,
               swap_available = replicate (unat (sz div SECTORS_PER_PAGE)) True,
               swap_size = sz div SECTORS_PER_PAGE\<rparr>)"

text \<open>The \<open>for (i = 0; i < SECTORS_PER_PAGE; ++i)\<close> loop of \<open>vm_swap_out\<close>, over the values of \<open>i\<close>.\<close>

fun swap_out_loop ::
  "memory \<Rightarrow> swap_index_t \<Rightarrow> addr \<Rightarrow> nat list \<Rightarrow> swap_store \<Rightarrow> fault + swap_store" where
  "swap_out_loop m swap_index page [] s = Inr s"
| "swap_out_loop m swap_index page (i # is) s =
     (case block_write s (swap_index * SECTORS_PER_PAGE + of_nat i)
             (m (page + BLOCK_SECTOR_SIZE * of_nat i)) of
        Inl e \<Rightarrow> Inl e
      | Inr s' \<Rightarrow> swap_out_loop m swap_index page is s')"

definition vm_swap_out :: "memory \<Rightarrow> swap_store \<Rightarrow> addr \<Rightarrow> fault + (swap_store \<times> swap_index_t)" where
  "vm_swap_out m s page =
     (if page < PHYS_BASE then Inl Assertion_failed
      else
        let swap_index = bitmap_scan (swap_available s) True in
        case swap_out_loop m swap_index page [0 ..< unat SECTORS_PER_PAGE] s of
          Inl e \<Rightarrow> Inl e
        | Inr s1 \<Rightarrow>
            (case bitmap_set (swap_available s1) swap_index False of
               Inl e \<Rightarrow> Inl e
             | Inr b \<Rightarrow> Inr (s1\<lparr>swap_available := b\<rparr>, swap_index)))"

text \<open>The read loop of \<open>vm_swap_in\<close>.\<close>

fun swap_in_loop ::
  "swap_store \<Rightarrow> swap_index_t \<Rightarrow> addr \<Rightarrow> nat list \<Rightarrow> memory \<Rightarrow> fault + memory" where
  "swap_in_loop s swap_index page [] m = Inr m"
| "swap_in_loop s swap_index page (i # is) m =
     (case block_read s (swap_index * SECTORS_PER_PAGE + of_nat i) of
        Inl e \<Rightarrow> Inl e
      | Inr d \<Rightarrow> swap_in_loop s swap_index page is (m(page + BLOCK_SECTOR_SIZE * of_nat i := d)))"

definition vm_swap_in ::
  "memory \<Rightarrow> swap_store \<Rightarrow> swap_index_t \<Rightarrow> addr \<Rightarrow> fault + (swap_store \<times> memory)" where
  "vm_swap_in m s swap_index page =
     (if page < PHYS_BASE then Inl Assertion_failed
      else if \<not> swap_index < swap_size s then Inl Assertion_failed
      else case bitmap_test (swap_available s) swap_index of
        Inl e \<Rightarrow> Inl e
      | Inr free \<Rightarrow>
          if free then Inl Swap_in_unassigned
          else (case swap_in_loop s swap_index page [0 ..< unat SECTORS_PER_PAGE] m of
                  Inl e \<Rightarrow> Inl e
                | Inr m' \<Rightarrow>
                    (case bitmap_set (swap_available s) swap_index True of
                       Inl e \<Rightarrow> Inl e
                     | Inr b \<Rightarrow> Inr (s\<lparr>swap_available := b\<rparr>, m'))))"

definition vm_swap_free :: "swap_store \<Rightarrow> swap_index_t \<Rightarrow> fault + swap_store" where
  "vm_swap_free s swap_index =
     (if \<not> swap_index < swap_size s then Inl Assertion_failed
      else case bitmap_test (swap_available s) swap_index of
        Inl e \<Rightarrow> Inl e
      | Inr free \<Rightarrow>
          if free then Inl Swap_free_unassigned
          else (case bitmap_set (swap_available s) swap_index True of
                  Inl e \<Rightarrow> Inl e
                | Inr b \<Rightarrow> Inr (s\<lparr>swap_available := b\<rparr>)))"

text \<open>What \<open>vm_swap_init\<close> establishes and every swap operation keeps.\<close>

definition swap_inv :: "swap_store \<Rightarrow> bool" where
  "swap_inv s \<longleftrightarrow>
     swap_size s = block_size s div SECTORS_PER_PAGE \<and>
     length (swap_available s) = unat (swap_size s)"

section \<open>Supplemental page table (vm/page.h, vm/page.c)\<close>

datatype page_status = ALL_ZEROS | ON_FRAME | ON_SWAP | FROM_FILESYS

record supplemental_page_table_entry =
  upage :: addr
  kpage :: addr
  status :: page_status
  is_dirty :: bool
  swap_index :: swap_index_t
  "file" :: file_ptr
  file_offset :: nat
  read_bytes :: "32 word"
  zero_bytes :: "32 word"
  writable :: bool

text \<open>
  \<open>page_map\<close> is a hash table keyed by \<open>upage\<close>: an association list with one entry per
  key. \<open>hash_insert\<close> leaves the table alone when the key is present.
\<close>

type_synonym supplemental_page_table = "(addr \<times> supplemental_page_table_entry) list"

definition vm_supt_create :: supplemental_page_table where
  "vm_supt_create = []"

definition vm_supt_find ::
  "supplemental_page_table \<Rightarrow> addr \<Rightarrow> supplemental_page_table_entry option" where
  "vm_supt_find supt page = map_of supt page"

definition vm_supt_has_entry :: "supplemental_page_table \<Rightarrow> addr \<Rightarrow> bool" where
  "vm_supt_has_entry supt page = (case vm_supt_find supt page of None \<Rightarrow> False | Some _ \<Rightarrow> True)"

text \<open>A write through the \<open>spte\<close> pointer that \<open>vm_supt_find\<close> returned.\<close>

definition spte_update ::
  "addr \<Rightarrow> (supplemental_page_table_entry \<Rightarrow> supplemental_page_table_entry) \<Rightarrow>
   supplemental_page_table \<Rightarrow> supplemental_page_table" where
  "spte_update page f supt = map (\<lambda>(k, e). if k = page then (k, f e) else (k, e)) supt"

definition hash_delete :: "supplemental_page_table \<Rightarrow> addr \<Rightarrow> supplemental_page_table" where
  "hash_delete supt page = filter (\<lambda>(k, e). k \<noteq> page) supt"

text \<open>
  The installers fill a block that \<open>malloc\<close> returned; \<open>raw\<close> is that block, and the fields
  an installer does not assign keep what it held.
\<close>

definition vm_supt_install_frame ::
  "supplemental_page_table_entry \<Rightarrow> supplemental_page_table \<Rightarrow> addr \<Rightarrow> addr \<Rightarrow>
   supplemental_page_table \<times> bool" where
  "vm_supt_install_frame raw supt up kp =
     (let spte = raw\<lparr>upage := up, kpage := kp, status := ON_FRAME, is_dirty := False,
                     swap_index := - 1\<rparr>
      in case map_of supt up of
           None \<Rightarrow> ((up, spte) # supt, True)
         | Some prev \<Rightarrow> (supt, False))"

definition vm_supt_install_zeropage ::
  "supplemental_page_table_entry \<Rightarrow> supplemental_page_table \<Rightarrow> addr \<Rightarrow>
   fault + (supplemental_page_table \<times> bool)" where
  "vm_supt_install_zeropage raw supt up =
     (let spte = raw\<lparr>upage := up, kpage := 0, status := ALL_ZEROS, is_dirty := False\<rparr>
      in case map_of supt up of
           None \<Rightarrow> Inr ((up, spte) # supt, True)
         | Some prev \<Rightarrow> Inl Duplicate_zeropage)"

definition vm_supt_set_swap ::
  "supplemental_page_table \<Rightarrow> addr \<Rightarrow> swap_index_t \<Rightarrow> supplemental_page_table \<times> bool" where
  "vm_supt_set_swap supt page idx =
     (case vm_supt_find supt page of
        None \<Rightarrow> (supt, False)
      | Some spte \<Rightarrow>
          (spte_update page (\<lambda>e. e\<lparr>kpage := 0, status := ON_SWAP, swap_index := idx\<rparr>) supt, True))"

definition vm_supt_install_filesys ::
  "supplemental_page_table_entry \<Rightarrow> supplemental_page_table \<Rightarrow> addr \<Rightarrow> file_ptr \<Rightarrow> nat \<Rightarrow>
   32 word \<Rightarrow> 32 word \<Rightarrow> bool \<Rightarrow> fault + (supplemental_page_table \<times> bool)" where
  "vm_supt_install_filesys raw supt up f offset rb zb w =
     (let spte = raw\<lparr>upage := up, kpage := 0, status := FROM_FILESYS, is_dirty := False,
                     file := f, file_offset := offset, read_bytes := rb, zero_bytes := zb,
                     writable := w\<rparr>
      in case map_of supt up of
           None \<Rightarrow> Inr ((up, spte) # supt, True)
         | Some prev \<Rightarrow> Inl Duplicate_filesys)"

definition vm_supt_set_dirty ::
  "supplemental_page_table \<Rightarrow> addr \<Rightarrow> bool \<Rightarrow> fault + (supplemental_page_table \<times> bool)" where
  "vm_supt_set_dirty supt page v =
     (case vm_supt_find supt page of
        None \<Rightarrow> Inl Page_missing
      | Some spte \<Rightarrow> Inr (spte_update page (\<lambda>e. e\<lparr>is_dirty := (is_dirty e \<or> v)\<rparr>) supt, True))"

text \<open>Invariant (c) of the spec's data model: \<open>kpage != NULL\<close> iff \<open>status = ON_FRAME\<close>.\<close>

definition spte_inv :: "supplemental_page_table_entry \<Rightarrow> bool" where
  "spte_inv e \<longleftrightarrow> (kpage e \<noteq> 0) = (status e = ON_FRAME)"

definition supt_inv :: "supplemental_page_table \<Rightarrow> bool" where
  "supt_inv supt \<longleftrightarrow> list_all (\<lambda>(k, e). spte_inv e) supt"

section \<open>The kernel state the VM core works on\<close>

text \<open>
  Modelled from the spec: \<open>userprog/pagedir.c\<close> is not under src/. A page directory
  holds the mappings \<open>upage \<rightarrow> (kpage, writable)\<close> and, per address, the accessed and
  dirty bits the hardware maintains (spec 6: \<open>set_page\<close>, \<open>clear_page\<close>, \<open>is_accessed\<close>,
  \<open>set_accessed\<close>, \<open>is_dirty\<close>, \<open>set_dirty\<close>; the address may be the user or the kernel
  alias of a frame). \<open>set_page\<close> can fail, which the caller of the model decides.
\<close>

record pagedir =
  pd_map :: "addr \<rightharpoonup> (addr \<times> bool)"
  pd_accessed :: "addr \<Rightarrow> bool"
  pd_dirty :: "addr \<Rightarrow> bool"

definition pagedir_set_page :: "bool \<Rightarrow> pagedir \<Rightarrow> addr \<Rightarrow> addr \<Rightarrow> bool \<Rightarrow> pagedir \<times> bool" where
  "pagedir_set_page ok pd up kp w =
     (if ok then (pd\<lparr>pd_map := (pd_map pd)(up \<mapsto> (kp, w))\<rparr>, True) else (pd, False))"

definition pagedir_clear_page :: "pagedir \<Rightarrow> addr \<Rightarrow> pagedir" where
  "pagedir_clear_page pd up = pd\<lparr>pd_map := (pd_map pd)(up := None)\<rparr>"

definition pagedir_is_accessed :: "pagedir \<Rightarrow> addr \<Rightarrow> bool" where
  "pagedir_is_accessed pd va = pd_accessed pd va"

definition pagedir_set_accessed :: "pagedir \<Rightarrow> addr \<Rightarrow> bool \<Rightarrow> pagedir" where
  "pagedir_set_accessed pd va v = pd\<lparr>pd_accessed := (pd_accessed pd)(va := v)\<rparr>"

definition pagedir_is_dirty :: "pagedir \<Rightarrow> addr \<Rightarrow> bool" where
  "pagedir_is_dirty pd va = pd_dirty pd va"

definition pagedir_set_dirty :: "pagedir \<Rightarrow> addr \<Rightarrow> bool \<Rightarrow> pagedir" where
  "pagedir_set_dirty pd va v = pd\<lparr>pd_dirty := (pd_dirty pd)(va := v)\<rparr>"

text \<open>
  \<open>struct file_desc\<close> and \<open>struct mmap_desc\<close> of userprog/process.h: \<open>int id\<close> and
  \<open>struct file *file\<close>; \<open>mmapid_t id\<close>, \<open>struct file *file\<close>, \<open>void *addr\<close> and
  \<open>size_t size\<close>. The \<open>elem\<close> member of each links it into its thread's list, which is
  the list that holds the record here.
\<close>

record file_desc =
  fd_id :: c_int
  fd_file :: file_ptr

record mmap_desc =
  mm_id :: mmapid_t
  mm_file :: file_ptr
  mm_addr :: addr
  mm_size :: size_t

text \<open>
  Modelled from the spec: \<open>struct thread\<close> (threads/thread.h) is not under src/; the fields
  are the ones the source reads and writes: the page directory, the SPT, the file
  descriptors and the mmap descriptors of the address space (spec 3). A thread pointer is
  a \<open>tid\<close>, 0 for \<open>NULL\<close>.
\<close>

record thread =
  t_pagedir :: pd_ptr
  t_supt :: supt_ptr
  file_descriptors :: "file_desc list"
  mmap_list :: "mmap_desc list"

record frame_table_entry =
  fte_kpage :: addr
  fte_upage :: addr
  fte_t :: tid
  fte_is_pinned :: bool

text \<open>
  \<open>clock_ptr\<close> is \<open>NULL\<close>, a node of \<open>frame_list\<close> (by position), the list's tail sentinel
  (\<open>list_end\<close>), or a pointer to an entry that \<open>vm_frame_do_free\<close> has freed.
\<close>

datatype hand = Hand_null | Hand_at nat | Hand_end | Hand_stale

text \<open>What \<open>clock_frame_next\<close> returns: a node of the list, or \<open>list_entry\<close> of the tail sentinel.\<close>

datatype entry_ref = Ring nat | Tail

text \<open>One record of \<open>file_write_at (file, buffer, size, offset)\<close>, with the bytes of the buffer.\<close>

record file_write =
  w_file :: file_ptr
  w_data :: "sector_data list"
  w_size :: "32 word"
  w_offset :: nat

text \<open>
  \<open>frame_list\<close> holds the frame table in insertion order; \<open>frame_hash\<close> indexes the same
  entries by \<open>kpage\<close>, so \<open>hash_size\<close> is the length of the list and \<open>hash_find\<close> a search
  of it. \<open>tail_view\<close> is what the memory around the tail sentinel of \<open>frame_list\<close> reads as
  when \<open>list_entry\<close> is applied to it. The pools are the free pages of the physical
  allocator. Locks are not modelled: every operation runs to its end.
\<close>

record vm_state =
  current :: tid
  threads :: "tid \<Rightarrow> thread"
  pagedirs :: "pd_ptr \<Rightarrow> pagedir"
  supts :: "supt_ptr \<Rightarrow> supplemental_page_table"
  user_pool :: "addr list"
  kernel_pool :: "addr list"
  frame_list :: "frame_table_entry list"
  clock_ptr :: hand
  tail_view :: frame_table_entry
  swap :: swap_store
  mem :: memory
  file_length :: "file_ptr \<Rightarrow> nat"
  file_writes :: "file_write list"

text \<open>
  The outcomes, at one call, of what the VM core does not own: whether \<open>malloc\<close> of a
  frame-table entry succeeds, the block \<open>malloc\<close> returns for an SPT entry, how many
  bytes \<open>file_read\<close> delivers and what it leaves in the page, whether \<open>pagedir_set_page\<close>
  succeeds, and what \<open>file_reopen\<close> returns (0 for \<open>NULL\<close>).
\<close>

record externals =
  malloc_ok :: bool
  malloc_spte :: supplemental_page_table_entry
  file_read_n :: "32 word"
  file_read_image :: "addr \<Rightarrow> sector_data"
  set_page_ok :: bool
  file_reopen :: "file_ptr \<Rightarrow> file_ptr"

text \<open>
  Modelled from the spec: \<open>threads/palloc.c\<close> is not under src/. \<open>palloc_get_page\<close> takes
  a free page of the user or the kernel pool, or returns \<open>NULL\<close> (spec 6:
  \<open>get_page (USER[|ZERO])\<close> returns a page or none); \<open>palloc_free_page\<close> gives it back.
\<close>

record palloc_flags =
  pal_user :: bool
  pal_zero :: bool

definition PAL_USER :: palloc_flags where
  "PAL_USER = \<lparr>pal_user = True, pal_zero = False\<rparr>"

definition PAL_NONE :: palloc_flags where
  "PAL_NONE = \<lparr>pal_user = False, pal_zero = False\<rparr>"

definition palloc_get_page :: "vm_state \<Rightarrow> palloc_flags \<Rightarrow> vm_state \<times> addr" where
  "palloc_get_page st flags =
     (case (if pal_user flags then user_pool st else kernel_pool st) of
        [] \<Rightarrow> (st, 0)
      | p # ps \<Rightarrow>
          (let st1 = (if pal_user flags then st\<lparr>user_pool := ps\<rparr> else st\<lparr>kernel_pool := ps\<rparr>)
           in (if pal_zero flags then st1\<lparr>mem := memset_page (mem st1) p\<rparr> else st1, p)))"

definition palloc_free_page :: "bool \<Rightarrow> vm_state \<Rightarrow> addr \<Rightarrow> vm_state" where
  "palloc_free_page user st page =
     (if user then st\<lparr>user_pool := page # user_pool st\<rparr>
      else st\<lparr>kernel_pool := page # kernel_pool st\<rparr>)"

section \<open>Frame table (vm/frame.c)\<close>

definition vm_frame_init :: "vm_state \<Rightarrow> vm_state" where
  "vm_frame_init st = st\<lparr>frame_list := [], clock_ptr := Hand_null\<rparr>"

definition entry_at :: "vm_state \<Rightarrow> entry_ref \<Rightarrow> frame_table_entry" where
  "entry_at st r = (case r of Ring i \<Rightarrow> frame_list st ! i | Tail \<Rightarrow> tail_view st)"

text \<open>
  \<open>clock_frame_next\<close>: from \<open>NULL\<close> or \<open>list_end\<close> the hand goes to \<open>list_begin\<close>, otherwise
  to \<open>list_next\<close>, which for the last node is the tail sentinel; the entry returned is
  \<open>list_entry\<close> of wherever the hand now is.
\<close>

definition clock_frame_next :: "vm_state \<Rightarrow> fault + (vm_state \<times> entry_ref)" where
  "clock_frame_next st =
     (if frame_list st = [] then Inl Evict_empty
      else case clock_ptr st of
        Hand_null \<Rightarrow> Inr (st\<lparr>clock_ptr := Hand_at 0\<rparr>, Ring 0)
      | Hand_end \<Rightarrow> Inr (st\<lparr>clock_ptr := Hand_at 0\<rparr>, Ring 0)
      | Hand_at i \<Rightarrow>
          if Suc i < length (frame_list st) then Inr (st\<lparr>clock_ptr := Hand_at (Suc i)\<rparr>, Ring (Suc i))
          else if Suc i = length (frame_list st) then Inr (st\<lparr>clock_ptr := Hand_end\<rparr>, Tail)
          else Inl Undefined_behaviour
      | Hand_stale \<Rightarrow> Inl Undefined_behaviour)"

definition cons_log ::
  "entry_ref \<Rightarrow> entry_ref list \<times> 'a \<Rightarrow> entry_ref list \<times> 'a" where
  "cons_log r x = (r # fst x, snd x)"

text \<open>
  The \<open>for (i = 0; i <= n * 2; ++i)\<close> loop of \<open>frame_to_be_evicted\<close>. Beside the outcome
  it returns the entries that \<open>clock_frame_next\<close> handed to the loop body, in order.
\<close>

function evict_loop ::
  "pd_ptr \<Rightarrow> nat \<Rightarrow> nat \<Rightarrow> vm_state \<Rightarrow> entry_ref list \<times> (fault + (vm_state \<times> entry_ref))" where
  "evict_loop pagedir n i st =
     (if i \<le> n * 2 then
        (case clock_frame_next st of
           Inl e \<Rightarrow> ([], Inl e)
         | Inr (st1, r) \<Rightarrow>
             if fte_is_pinned (entry_at st1 r) then cons_log r (evict_loop pagedir n (i + 1) st1)
             else if pagedir_is_accessed (pagedirs st1 pagedir) (fte_upage (entry_at st1 r)) then
               cons_log r (evict_loop pagedir n (i + 1)
                 (st1\<lparr>pagedirs := (pagedirs st1)
                    (pagedir := pagedir_set_accessed (pagedirs st1 pagedir)
                                  (fte_upage (entry_at st1 r)) False)\<rparr>))
             else ([r], Inr (st1, r)))
      else ([], Inl Cannot_evict))"
  by pat_completeness auto
termination
  by (relation "measure (\<lambda>(pagedir, n, i, st). n * 2 + 1 - i)") auto

definition frame_to_be_evicted ::
  "pd_ptr \<Rightarrow> vm_state \<Rightarrow> entry_ref list \<times> (fault + (vm_state \<times> entry_ref))" where
  "frame_to_be_evicted pagedir st =
     (let n = length (frame_list st)
      in if n = 0 then ([], Inl Evict_empty) else evict_loop pagedir n 0 st)"

text \<open>\<open>hash_find\<close> on \<open>frame_hash\<close>: the position of the entry with this \<open>kpage\<close>.\<close>

fun frame_find :: "frame_table_entry list \<Rightarrow> addr \<Rightarrow> nat option" where
  "frame_find [] k = None"
| "frame_find (e # es) k = (if fte_kpage e = k then Some 0 else map_option Suc (frame_find es k))"

text \<open>\<open>clock_ptr\<close> after \<open>list_remove\<close> and \<open>free\<close> of node \<open>i\<close>: the source does not touch it.\<close>

definition hand_after_remove :: "nat \<Rightarrow> hand \<Rightarrow> hand" where
  "hand_after_remove i h =
     (case h of
        Hand_at j \<Rightarrow> if j < i then Hand_at j else if j = i then Hand_stale else Hand_at (j - 1)
      | _ \<Rightarrow> h)"

definition vm_frame_do_free :: "vm_state \<Rightarrow> addr \<Rightarrow> bool \<Rightarrow> fault + vm_state" where
  "vm_frame_do_free st kp free_page =
     (if \<not> is_kernel_vaddr kp then Inl Assertion_failed
      else if pg_ofs kp \<noteq> 0 then Inl Assertion_failed
      else case frame_find (frame_list st) kp of
        None \<Rightarrow> Inl Free_missing
      | Some i \<Rightarrow>
          (let st1 = st\<lparr>frame_list := take i (frame_list st) @ drop (Suc i) (frame_list st),
                        clock_ptr := hand_after_remove i (clock_ptr st)\<rparr>
           in Inr (if free_page then palloc_free_page True st1 kp else st1)))"

definition vm_frame_set_pinned :: "vm_state \<Rightarrow> addr \<Rightarrow> bool \<Rightarrow> fault + vm_state" where
  "vm_frame_set_pinned st kp v =
     (case frame_find (frame_list st) kp of
        None \<Rightarrow> Inl Pin_missing
      | Some i \<Rightarrow>
          Inr (st\<lparr>frame_list := (frame_list st)[i := (frame_list st ! i)\<lparr>fte_is_pinned := v\<rparr>]\<rparr>))"

text \<open>The eviction branch of \<open>vm_frame_alloc\<close>, taken when \<open>palloc_get_page\<close> returned \<open>NULL\<close>.\<close>

definition vm_frame_evict :: "vm_state \<Rightarrow> palloc_flags \<Rightarrow> fault + (vm_state \<times> addr)" where
  "vm_frame_evict st flags =
     (case snd (frame_to_be_evicted (t_pagedir (threads st (current st))) st) of
        Inl e \<Rightarrow> Inl e
      | Inr (st1, Tail) \<Rightarrow>
          if fte_t (tail_view st1) = 0 then Inl Assertion_failed else Inl Undefined_behaviour
      | Inr (st1, Ring i) \<Rightarrow>
          (let frame_evicted = frame_list st1 ! i;
               owner = threads st1 (fte_t frame_evicted);
               pd = t_pagedir owner
           in if fte_t frame_evicted = 0 then Inl Assertion_failed
              else if pd = 0xcccccccc then Inl Assertion_failed
              else
                let st2 = st1\<lparr>pagedirs := (pagedirs st1)
                            (pd := pagedir_clear_page (pagedirs st1 pd) (fte_upage frame_evicted))\<rparr>;
                    dirty = (pagedir_is_dirty (pagedirs st2 pd) (fte_upage frame_evicted) \<or>
                             pagedir_is_dirty (pagedirs st2 pd) (fte_kpage frame_evicted))
                in case vm_swap_out (mem st2) (swap st2) (fte_kpage frame_evicted) of
                     Inl e \<Rightarrow> Inl e
                   | Inr (sw, idx) \<Rightarrow>
                       (let st3 = st2\<lparr>swap := sw\<rparr>;
                            st4 = st3\<lparr>supts := (supts st3)
                                    (t_supt owner := fst (vm_supt_set_swap (supts st3 (t_supt owner))
                                                            (fte_upage frame_evicted) idx))\<rparr>
                        in case vm_supt_set_dirty (supts st4 (t_supt owner))
                                  (fte_upage frame_evicted) dirty of
                             Inl e \<Rightarrow> Inl e
                           | Inr (supt', r) \<Rightarrow>
                               (case vm_frame_do_free
                                       (st4\<lparr>supts := (supts st4)(t_supt owner := supt')\<rparr>)
                                       (fte_kpage frame_evicted) True of
                                  Inl e \<Rightarrow> Inl e
                                | Inr st5 \<Rightarrow>
                                    (let (st6, frame_page) =
                                           palloc_get_page st5 (flags\<lparr>pal_user := True\<rparr>)
                                     in if frame_page = 0 then Inl Assertion_failed
                                        else Inr (st6, frame_page))))))"

definition vm_frame_alloc ::
  "externals \<Rightarrow> vm_state \<Rightarrow> palloc_flags \<Rightarrow> addr \<Rightarrow> fault + (vm_state \<times> addr)" where
  "vm_frame_alloc ext st flags up =
     (let (st0, p) = palloc_get_page st (flags\<lparr>pal_user := True\<rparr>)
      in case (if p = 0 then vm_frame_evict st0 flags else Inr (st0, p)) of
           Inl e \<Rightarrow> Inl e
         | Inr (st1, frame_page) \<Rightarrow>
             if \<not> malloc_ok ext then Inr (st1, 0)
             else Inr (st1\<lparr>frame_list := frame_list st1 @
                            [\<lparr>fte_kpage = frame_page, fte_upage = up, fte_t = current st1,
                              fte_is_pinned = True\<rparr>]\<rparr>,
                       frame_page))"

definition vm_frame_free :: "vm_state \<Rightarrow> addr \<Rightarrow> fault + vm_state" where
  "vm_frame_free st kp = vm_frame_do_free st kp True"

definition vm_frame_remove_entry :: "vm_state \<Rightarrow> addr \<Rightarrow> fault + vm_state" where
  "vm_frame_remove_entry st kp = vm_frame_do_free st kp False"

definition vm_frame_pin :: "vm_state \<Rightarrow> addr \<Rightarrow> fault + vm_state" where
  "vm_frame_pin st kp = vm_frame_set_pinned st kp True"

definition vm_frame_unpin :: "vm_state \<Rightarrow> addr \<Rightarrow> fault + vm_state" where
  "vm_frame_unpin st kp = vm_frame_set_pinned st kp False"

section \<open>Fault resolver, unmap and pinning (vm/page.c)\<close>

text \<open>
  \<open>vm_load_page_from_filesys\<close>: \<open>file_read\<close> delivers \<open>file_read_n\<close> bytes; what the page
  holds after the read and the \<open>memset\<close> of the rest is taken from \<open>file_read_image\<close>.
\<close>

definition vm_load_page_from_filesys ::
  "externals \<Rightarrow> supplemental_page_table_entry \<Rightarrow> addr \<Rightarrow> memory \<Rightarrow> fault + (memory \<times> bool)" where
  "vm_load_page_from_filesys ext spte kp m =
     (let n = file_read_n ext;
          m1 = fold (\<lambda>a m'. m'(a := file_read_image ext a)) (page_chunks kp) m
      in if n \<noteq> read_bytes spte then Inr (m1, False)
         else if read_bytes spte + zero_bytes spte \<noteq> PGSIZE then Inl Assertion_failed
         else Inr (m1, True))"

text \<open>
  The \<open>switch (spte->status)\<close> of \<open>vm_load_page\<close>: the state, whether the page was
  filled, and \<open>writable\<close>.
\<close>

definition vm_load_page_fill ::
  "externals \<Rightarrow> vm_state \<Rightarrow> supplemental_page_table_entry \<Rightarrow> addr \<Rightarrow>
   fault + (vm_state \<times> bool \<times> bool)" where
  "vm_load_page_fill ext st spte frame_page =
     (case status spte of
        ALL_ZEROS \<Rightarrow> Inr (st\<lparr>mem := memset_page (mem st) frame_page\<rparr>, True, True)
      | ON_FRAME \<Rightarrow> Inr (st, True, True)
      | ON_SWAP \<Rightarrow>
          (case vm_swap_in (mem st) (swap st) (swap_index spte) frame_page of
             Inl e \<Rightarrow> Inl e
           | Inr (sw, m) \<Rightarrow> Inr (st\<lparr>swap := sw, mem := m\<rparr>, True, True))
      | FROM_FILESYS \<Rightarrow>
          (case vm_load_page_from_filesys ext spte frame_page (mem st) of
             Inl e \<Rightarrow> Inl e
           | Inr (m, ok) \<Rightarrow>
               if ok then Inr (st\<lparr>mem := m\<rparr>, True, writable spte)
               else Inr (st\<lparr>mem := m\<rparr>, False, True)))"

definition vm_load_page ::
  "externals \<Rightarrow> vm_state \<Rightarrow> supt_ptr \<Rightarrow> pd_ptr \<Rightarrow> addr \<Rightarrow> fault + (vm_state \<times> bool)" where
  "vm_load_page ext st supt pagedir up =
     (case vm_supt_find (supts st supt) up of
        None \<Rightarrow> Inr (st, False)
      | Some spte0 \<Rightarrow>
          if status spte0 = ON_FRAME then Inr (st, True)
          else case vm_frame_alloc ext st PAL_USER up of
            Inl e \<Rightarrow> Inl e
          | Inr (st1, frame_page) \<Rightarrow>
              if frame_page = 0 then Inr (st1, False)
              else case vm_supt_find (supts st1 supt) up of
                None \<Rightarrow> Inl Undefined_behaviour
              | Some spte \<Rightarrow>
                  (case vm_load_page_fill ext st1 spte frame_page of
                     Inl e \<Rightarrow> Inl e
                   | Inr (st2, filled, w) \<Rightarrow>
                       if \<not> filled then
                         (case vm_frame_free st2 frame_page of
                            Inl e \<Rightarrow> Inl e
                          | Inr st3 \<Rightarrow> Inr (st3, False))
                       else
                         let (pd', ok) = pagedir_set_page (set_page_ok ext) (pagedirs st2 pagedir)
                                           up frame_page w;
                             st3 = st2\<lparr>pagedirs := (pagedirs st2)(pagedir := pd')\<rparr>
                         in if \<not> ok then
                              (case vm_frame_free st3 frame_page of
                                 Inl e \<Rightarrow> Inl e
                               | Inr st4 \<Rightarrow> Inr (st4, False))
                            else
                              let st4 = st3\<lparr>supts := (supts st3)
                                          (supt := spte_update up
                                             (\<lambda>e. e\<lparr>kpage := frame_page, status := ON_FRAME\<rparr>)
                                             (supts st3 supt))\<rparr>;
                                  st5 = st4\<lparr>pagedirs := (pagedirs st4)
                                          (pagedir := pagedir_set_dirty (pagedirs st4 pagedir)
                                                        frame_page False)\<rparr>
                              in case vm_frame_unpin st5 frame_page of
                                   Inl e \<Rightarrow> Inl e
                                 | Inr st6 \<Rightarrow> Inr (st6, True)))"

text \<open>
  Modelled from the spec: \<open>filesys/file.c\<close> is not under src/. \<open>file_write_at\<close> is recorded
  with the contents of its buffer; a buffer in user space is read through the running
  thread's page directory.
\<close>

definition file_write_at ::
  "vm_state \<Rightarrow> file_ptr \<Rightarrow> addr \<Rightarrow> 32 word \<Rightarrow> nat \<Rightarrow> vm_state" where
  "file_write_at st f buffer sz offset =
     st\<lparr>file_writes := file_writes st @
          [\<lparr>w_file = f, w_data = map (mem st) (page_chunks buffer), w_size = sz,
            w_offset = offset\<rparr>]\<rparr>"

definition file_write_at_user ::
  "vm_state \<Rightarrow> file_ptr \<Rightarrow> addr \<Rightarrow> 32 word \<Rightarrow> nat \<Rightarrow> fault + vm_state" where
  "file_write_at_user st f buffer sz offset =
     (case pd_map (pagedirs st (t_pagedir (threads st (current st)))) buffer of
        None \<Rightarrow> Inl Kernel_page_fault
      | Some (kp, w) \<Rightarrow> Inr (file_write_at st f kp sz offset))"

definition munmap_finish :: "vm_state \<Rightarrow> supt_ptr \<Rightarrow> addr \<Rightarrow> vm_state \<times> bool" where
  "munmap_finish st supt page =
     (st\<lparr>supts := (supts st)(supt := hash_delete (supts st supt) page)\<rparr>, True)"

definition vm_supt_munmap ::
  "vm_state \<Rightarrow> supt_ptr \<Rightarrow> pd_ptr \<Rightarrow> addr \<Rightarrow> file_ptr \<Rightarrow> nat \<Rightarrow> 32 word \<Rightarrow>
   fault + (vm_state \<times> bool)" where
  "vm_supt_munmap st supt pagedir page f offset bytes =
     (case vm_supt_find (supts st supt) page of
        None \<Rightarrow> Inl Page_missing
      | Some spte \<Rightarrow>
          (case status spte of
             ON_FRAME \<Rightarrow>
               if kpage spte = 0 then Inl Assertion_failed
               else (case vm_frame_pin st (kpage spte) of
                  Inl e \<Rightarrow> Inl e
                | Inr st1 \<Rightarrow>
                    (let dirty = (is_dirty spte \<or>
                                  pagedir_is_dirty (pagedirs st1 pagedir) (upage spte) \<or>
                                  pagedir_is_dirty (pagedirs st1 pagedir) (kpage spte))
                     in case (if dirty then file_write_at_user st1 f (upage spte) bytes offset
                              else Inr st1) of
                          Inl e \<Rightarrow> Inl e
                        | Inr st2 \<Rightarrow>
                            (case vm_frame_free st2 (kpage spte) of
                               Inl e \<Rightarrow> Inl e
                             | Inr st3 \<Rightarrow>
                                 Inr (munmap_finish
                                        (st3\<lparr>pagedirs := (pagedirs st3)
                                           (pagedir := pagedir_clear_page (pagedirs st3 pagedir)
                                                         (upage spte))\<rparr>)
                                        supt page))))
           | ON_SWAP \<Rightarrow>
               (let dirty = (is_dirty spte \<or> pagedir_is_dirty (pagedirs st pagedir) (upage spte))
                in if dirty then
                     (let (st1, tmp) = palloc_get_page st PAL_NONE
                      in case vm_swap_in (mem st1) (swap st1) (swap_index spte) tmp of
                           Inl e \<Rightarrow> Inl e
                         | Inr (sw, m) \<Rightarrow>
                             (let st2 = st1\<lparr>swap := sw, mem := m\<rparr>;
                                  st3 = file_write_at st2 f tmp PGSIZE offset;
                                  st4 = palloc_free_page False st3 tmp
                              in Inr (munmap_finish st4 supt page)))
                   else (case vm_swap_free (swap st) (swap_index spte) of
                           Inl e \<Rightarrow> Inl e
                         | Inr sw \<Rightarrow> Inr (munmap_finish (st\<lparr>swap := sw\<rparr>) supt page)))
           | FROM_FILESYS \<Rightarrow> Inr (munmap_finish st supt page)
           | ALL_ZEROS \<Rightarrow> Inl Invalid_status))"

definition vm_pin_page :: "vm_state \<Rightarrow> supt_ptr \<Rightarrow> addr \<Rightarrow> fault + vm_state" where
  "vm_pin_page st supt page =
     (case vm_supt_find (supts st supt) page of
        None \<Rightarrow> Inr st
      | Some spte \<Rightarrow>
          if status spte \<noteq> ON_FRAME then Inl Assertion_failed
          else vm_frame_pin st (kpage spte))"

definition vm_unpin_page :: "vm_state \<Rightarrow> supt_ptr \<Rightarrow> addr \<Rightarrow> fault + vm_state" where
  "vm_unpin_page st supt page =
     (case vm_supt_find (supts st supt) page of
        None \<Rightarrow> Inl Page_missing
      | Some spte \<Rightarrow>
          if status spte = ON_FRAME then vm_frame_unpin st (kpage spte)
          else Inr st)"

section \<open>Memory-mapped files (userprog/syscall.c)\<close>

definition find_file_desc :: "thread \<Rightarrow> c_int \<Rightarrow> file_desc option" where
  "find_file_desc t fd =
     (if sint fd < 3 then None else find (\<lambda>d. fd_id d = fd) (file_descriptors t))"

text \<open>
  The two \<open>for (offset = 0; offset < file_size; offset += PGSIZE)\<close> loops of \<open>sys_mmap\<close>.
  \<open>file_size\<close> comes from an \<open>off_t\<close>, so \<open>offset\<close> cannot wrap; the addresses
  \<open>upage + offset\<close> are 32-bit. The first loop answers whether some page of the range has
  an SPT entry.
\<close>

function mmap_overlaps :: "supplemental_page_table \<Rightarrow> addr \<Rightarrow> nat \<Rightarrow> nat \<Rightarrow> bool" where
  "mmap_overlaps supt up file_size offset =
     (if offset < file_size then
        (if vm_supt_has_entry supt (up + of_nat offset) then True
         else mmap_overlaps supt up file_size (offset + unat PGSIZE))
      else False)"
  by pat_completeness auto
termination
  by (relation "measure (\<lambda>(supt, up, file_size, offset). file_size - offset)")
     (auto simp: PGSIZE_def)

function mmap_install ::
  "supplemental_page_table_entry \<Rightarrow> supplemental_page_table \<Rightarrow> addr \<Rightarrow> file_ptr \<Rightarrow> nat \<Rightarrow>
   nat \<Rightarrow> fault + supplemental_page_table" where
  "mmap_install raw supt up f file_size offset =
     (if offset < file_size then
        (let a = up + of_nat offset;
             rb = (if offset + unat PGSIZE < file_size then unat PGSIZE else file_size - offset);
             zb = unat PGSIZE - rb
         in case vm_supt_install_filesys raw supt a f offset (of_nat rb) (of_nat zb) True of
              Inl e \<Rightarrow> Inl e
            | Inr (supt', r) \<Rightarrow> mmap_install raw supt' up f file_size (offset + unat PGSIZE))
      else Inr supt)"
  by pat_completeness auto
termination
  by (relation "measure (\<lambda>(raw, supt, up, f, file_size, offset). file_size - offset)")
     (auto simp: PGSIZE_def)

definition sys_mmap ::
  "externals \<Rightarrow> vm_state \<Rightarrow> c_int \<Rightarrow> addr \<Rightarrow> fault + (vm_state \<times> mmapid_t)" where
  "sys_mmap ext st fd up =
     (if up = 0 \<or> pg_ofs up \<noteq> 0 then Inr (st, - 1)
      else if sint fd \<le> 1 then Inr (st, - 1)
      else
        let curr = threads st (current st);
            f = (case find_file_desc curr fd of
                   None \<Rightarrow> 0
                 | Some d \<Rightarrow> if fd_file d \<noteq> 0 then file_reopen ext (fd_file d) else 0)
        in if f = 0 then Inr (st, - 1)
           else
             let file_size = file_length st f
             in if file_size = 0 then Inr (st, - 1)
                else if mmap_overlaps (supts st (t_supt curr)) up file_size 0 then Inr (st, - 1)
                else case mmap_install (malloc_spte ext) (supts st (t_supt curr)) up f
                            file_size 0 of
                  Inl e \<Rightarrow> Inl e
                | Inr supt' \<Rightarrow>
                    (let mid = (if mmap_list curr \<noteq> [] then mm_id (last (mmap_list curr)) + 1
                                else 1);
                         mmap_d = \<lparr>mm_id = mid, mm_file = f, mm_addr = up, mm_size = of_nat file_size\<rparr>;
                         st1 = st\<lparr>supts := (supts st)(t_supt curr := supt')\<rparr>;
                         st2 = st1\<lparr>threads := (threads st1)
                                 (current st := curr\<lparr>mmap_list := mmap_list curr @ [mmap_d]\<rparr>)\<rparr>
                     in Inr (st2, mid)))"

section \<open>Example states\<close>

text \<open>
  A freshly initialised core with two user frames, one kernel page and a two-slot swap
  device; two threads are distinguished by their page directory and SPT pointers.
\<close>

definition raw_spte :: supplemental_page_table_entry where
  "raw_spte = \<lparr>upage = 0, kpage = 0, status = ALL_ZEROS, is_dirty = False, swap_index = 0,
               file = 0, file_offset = 0, read_bytes = 0, zero_bytes = 0, writable = False\<rparr>"

definition boot_state :: vm_state where
  "boot_state =
     \<lparr>current = 1,
      threads = (\<lambda>t. \<lparr>t_pagedir = of_nat t, t_supt = of_nat t, file_descriptors = [],
                      mmap_list = []\<rparr>),
      pagedirs = (\<lambda>p. \<lparr>pd_map = Map.empty, pd_accessed = (\<lambda>a. False), pd_dirty = (\<lambda>a. False)\<rparr>),
      supts = (\<lambda>p. []),
      user_pool = [0xc0100000, 0xc0101000],
      kernel_pool = [0xc0200000],
      frame_list = [],
      clock_ptr = Hand_null,
      tail_view = \<lparr>fte_kpage = 0, fte_upage = 0, fte_t = 0, fte_is_pinned = True\<rparr>,
      swap = \<lparr>block_size = 16, block_data = (\<lambda>s. []), swap_available = [True, True],
              swap_size = 2\<rparr>,
      mem = (\<lambda>a. []),
      file_length = (\<lambda>f. 0),
      file_writes = []\<rparr>"

definition ext_ok :: externals where
  "ext_ok = \<lparr>malloc_ok = True, malloc_spte = raw_spte, file_read_n = 0,
             file_read_image = (\<lambda>a. []), set_page_ok = True, file_reopen = (\<lambda>f. f + 100)\<rparr>"

text \<open>Thread 1 has one resident page.\<close>

definition resident_state :: vm_state where
  "resident_state =
     boot_state\<lparr>supts := (\<lambda>p. [])
       (1 := [(0x08048000, raw_spte\<lparr>upage := 0x08048000, kpage := 0xc0100000,
                                    status := ON_FRAME\<rparr>)])\<rparr>"

text \<open>Thread 1 has one zero page that was never touched.\<close>

definition zero_state :: vm_state where
  "zero_state =
     boot_state\<lparr>supts := (\<lambda>p. [])(1 := [(0x08048000, raw_spte\<lparr>upage := 0x08048000\<rparr>)])\<rparr>"

text \<open>
  Thread 1 has three open files: descriptor 3 on a two-page file, 4 on a one-page file and
  5 on an empty file (a reopened file \<open>f\<close> is \<open>f + 100\<close>).
\<close>

definition files_state :: vm_state where
  "files_state =
     boot_state\<lparr>
       threads := (threads boot_state)
         (1 := \<lparr>t_pagedir = 1, t_supt = 1,
                file_descriptors = [\<lparr>fd_id = 3, fd_file = 7\<rparr>, \<lparr>fd_id = 4, fd_file = 8\<rparr>,
                                    \<lparr>fd_id = 5, fd_file = 9\<rparr>],
                mmap_list = []\<rparr>),
       file_length := (\<lambda>f. if f = 107 then 8192 else if f = 108 then 4096 else 0)\<rparr>"

text \<open>The same thread after \<open>mmap (3, 0x10000000)\<close>.\<close>

definition mapped_state :: vm_state where
  "mapped_state =
     files_state\<lparr>
       supts := (supts files_state)
         (1 := [(0x10001000,
                 raw_spte\<lparr>upage := 0x10001000, kpage := 0, status := FROM_FILESYS,
                          is_dirty := False, file := 107, file_offset := 4096,
                          read_bytes := 4096, zero_bytes := 0, writable := True\<rparr>),
                (0x10000000,
                 raw_spte\<lparr>upage := 0x10000000, kpage := 0, status := FROM_FILESYS,
                          is_dirty := False, file := 107, file_offset := 0,
                          read_bytes := 4096, zero_bytes := 0, writable := True\<rparr>)]),
       threads := (threads files_state)
         (1 := \<lparr>t_pagedir = 1, t_supt = 1,
                file_descriptors = [\<lparr>fd_id = 3, fd_file = 7\<rparr>, \<lparr>fd_id = 4, fd_file = 8\<rparr>,
                                    \<lparr>fd_id = 5, fd_file = 9\<rparr>],
                mmap_list = [\<lparr>mm_id = 1, mm_file = 107, mm_addr = 0x10000000,
                              mm_size = 8192\<rparr>]\<rparr>)\<rparr>"

text \<open>A two-slot swap device with slot 0 taken, and the same device with both slots taken.\<close>

definition swap_half :: swap_store where
  "swap_half = \<lparr>block_size = 16, block_data = (\<lambda>s. []), swap_available = [False, True],
                swap_size = 2\<rparr>"

definition swap_full :: swap_store where
  "swap_full = \<lparr>block_size = 16, block_data = (\<lambda>s. []), swap_available = [False, False],
                swap_size = 2\<rparr>"

text \<open>A memory whose every sector-sized chunk holds its own address's low byte.\<close>

definition mem_pattern :: memory where
  "mem_pattern = (\<lambda>a. [ucast (drop_bit 9 a)])"

text \<open>
  Both user frames belong to thread 2 and the user pool is empty; thread 1 is running and
  has a zero page of its own. Thread 2 has touched its first page since the last scan:
  the accessed bit for it is set in thread 2's page directory. The swap device has slot 0
  taken.
\<close>

definition full_state :: vm_state where
  "full_state =
     boot_state\<lparr>
       user_pool := [],
       frame_list :=
         [\<lparr>fte_kpage = 0xc0100000, fte_upage = 0x08048000, fte_t = 2, fte_is_pinned = False\<rparr>,
          \<lparr>fte_kpage = 0xc0101000, fte_upage = 0x08049000, fte_t = 2, fte_is_pinned = False\<rparr>],
       supts := (\<lambda>p. [])
         (1 := [(0x08050000, raw_spte\<lparr>upage := 0x08050000\<rparr>)],
          2 := [(0x08049000, raw_spte\<lparr>upage := 0x08049000, kpage := 0xc0101000,
                                       status := ON_FRAME\<rparr>),
                (0x08048000, raw_spte\<lparr>upage := 0x08048000, kpage := 0xc0100000,
                                       status := ON_FRAME\<rparr>)]),
       pagedirs := (pagedirs boot_state)
         (2 := \<lparr>pd_map = [0x08048000 \<mapsto> (0xc0100000, True), 0x08049000 \<mapsto> (0xc0101000, True)],
                pd_accessed = (\<lambda>a. a = 0x08048000),
                pd_dirty = (\<lambda>a. False)\<rparr>),
       swap := swap_half,
       mem := mem_pattern\<rparr>"

text \<open>
  Well-formed frame bookkeeping: the free user pages are page-aligned kernel addresses,
  no free page is in the frame table, and no page is in the table twice (spec 3,
  frame-table invariant (a)).
\<close>

definition frames_wf :: "vm_state \<Rightarrow> bool" where
  "frames_wf st \<longleftrightarrow>
     list_all (\<lambda>p. is_kernel_vaddr p \<and> pg_ofs p = 0) (user_pool st) \<and>
     distinct (map fte_kpage (frame_list st)) \<and>
     list_all (\<lambda>p. p \<notin> set (map fte_kpage (frame_list st))) (user_pool st)"

text \<open>Thread 1 has one file-backed page that was never touched; 100 bytes come from file 7.\<close>

definition filesys_state :: vm_state where
  "filesys_state =
     boot_state\<lparr>supts := (\<lambda>p. [])
       (1 := [(0x08048000,
               raw_spte\<lparr>upage := 0x08048000, status := FROM_FILESYS, file := 7,
                        read_bytes := 100, zero_bytes := 3996, writable := False\<rparr>)])\<rparr>"

text \<open>
  Thread 1 has one page of a mapping of file 107 in swap slot 0, once marked dirty in
  its SPT entry and once clean. Sector \<open>s\<close> of the device holds the byte \<open>s\<close>.
\<close>

definition swapped_state :: "bool \<Rightarrow> vm_state" where
  "swapped_state d =
     boot_state\<lparr>
       supts := (\<lambda>p. [])
         (1 := [(0x10000000, raw_spte\<lparr>upage := 0x10000000, status := ON_SWAP, is_dirty := d,
                                      swap_index := 0, file := 107\<rparr>)]),
       swap := \<lparr>block_size = 16, block_data = (\<lambda>s. [ucast s]), swap_available = [False, True],
                swap_size = 2\<rparr>\<rparr>"

text \<open>
  For the bound on the scan: which returned entries are nodes of the ring, how many
  advances a hand is away from the tail sentinel, and when the hand points to something
  the scan may read (\<open>NULL\<close>, a node of the list, or \<open>list_end\<close>).
\<close>

definition is_ring :: "entry_ref \<Rightarrow> bool" where
  "is_ring r = (case r of Ring i \<Rightarrow> True | Tail \<Rightarrow> False)"

definition hand_dist :: "nat \<Rightarrow> hand \<Rightarrow> nat" where
  "hand_dist n h =
     (case h of Hand_null \<Rightarrow> n + 1 | Hand_end \<Rightarrow> n + 1 | Hand_at j \<Rightarrow> n - j | Hand_stale \<Rightarrow> 0)"

definition hand_valid :: "vm_state \<Rightarrow> bool" where
  "hand_valid st =
     (case clock_ptr st of
        Hand_null \<Rightarrow> True
      | Hand_end \<Rightarrow> True
      | Hand_at j \<Rightarrow> j < length (frame_list st)
      | Hand_stale \<Rightarrow> False)"

text \<open>One frame, pinned; the bytes around the tail sentinel read as a pinned entry.\<close>

definition pinned_state :: vm_state where
  "pinned_state =
     boot_state\<lparr>
       user_pool := [],
       frame_list :=
         [\<lparr>fte_kpage = 0xc0100000, fte_upage = 0x08048000, fte_t = 1, fte_is_pinned = True\<rparr>]\<rparr>"

section \<open>Verified properties\<close>

subsection \<open>Fault resolver: a resident page\<close>

text \<open>
  C7. When the SPT entry for \<open>upage\<close> already has status \<open>ON_FRAME\<close>, \<open>vm_load_page\<close>
  returns true and changes nothing: no frame is allocated, and the frame table, the SPT
  and the rest of the state are what they were.
\<close>

theorem vm_load_page_resident_noop:
  "vm_supt_find (supts st supt) up = Some spte \<Longrightarrow> status spte = ON_FRAME \<Longrightarrow>
   vm_load_page ext st supt pagedir up = Inr (st, True)"
  by (simp add: vm_load_page_def)

theorem vm_load_page_resident_noop_witness:
  "vm_supt_find (supts resident_state 1) 0x08048000 =
     Some (raw_spte\<lparr>upage := 0x08048000, kpage := 0xc0100000, status := ON_FRAME\<rparr>) \<and>
   vm_load_page ext_ok resident_state 1 1 0x08048000 = Inr (resident_state, True)"
proof -
  have h: "vm_supt_find (supts resident_state 1) 0x08048000 =
             Some (raw_spte\<lparr>upage := 0x08048000, kpage := 0xc0100000, status := ON_FRAME\<rparr>)"
    by (simp add: resident_state_def vm_supt_find_def)
  have s: "status (raw_spte\<lparr>upage := 0x08048000, kpage := 0xc0100000, status := ON_FRAME\<rparr>)
             = ON_FRAME"
    by simp
  show ?thesis using h vm_load_page_resident_noop [OF h s] by simp
qed

subsection \<open>Pinning interface\<close>

text \<open>
  C10. The two directions of the pinning interface differ on a page without an SPT
  entry: \<open>vm_pin_page\<close> returns and leaves the state as it was, \<open>vm_unpin_page\<close> panics.
  On an entry whose status is not \<open>ON_FRAME\<close>, \<open>vm_unpin_page\<close> does nothing.
\<close>

theorem pin_unpin_asymmetry:
  "(vm_supt_find (supts st supt) page = None \<longrightarrow>
      vm_pin_page st supt page = Inr st \<and> vm_unpin_page st supt page = Inl Page_missing) \<and>
   (\<forall>spte. vm_supt_find (supts st supt) page = Some spte \<and> status spte \<noteq> ON_FRAME \<longrightarrow>
      vm_unpin_page st supt page = Inr st)"
  by (simp add: vm_pin_page_def vm_unpin_page_def)

theorem pin_unpin_asymmetry_witness:
  "vm_supt_find (supts boot_state 1) 0x08048000 = None \<and>
   vm_pin_page boot_state 1 0x08048000 = Inr boot_state \<and>
   vm_unpin_page boot_state 1 0x08048000 = Inl Page_missing \<and>
   vm_supt_find (supts zero_state 1) 0x08048000 = Some (raw_spte\<lparr>upage := 0x08048000\<rparr>) \<and>
   status (raw_spte\<lparr>upage := 0x08048000\<rparr>) \<noteq> ON_FRAME \<and>
   vm_unpin_page zero_state 1 0x08048000 = Inr zero_state"
proof -
  have h1: "vm_supt_find (supts boot_state 1) 0x08048000 = None"
    by (simp add: boot_state_def vm_supt_find_def)
  have h2: "vm_supt_find (supts zero_state 1) 0x08048000 = Some (raw_spte\<lparr>upage := 0x08048000\<rparr>)"
    by (simp add: zero_state_def vm_supt_find_def)
  have h3: "status (raw_spte\<lparr>upage := 0x08048000\<rparr>) \<noteq> ON_FRAME"
    by (simp add: raw_spte_def)
  show ?thesis
    using h1 h2 h3 pin_unpin_asymmetry [of boot_state 1 "0x08048000"]
      pin_unpin_asymmetry [of zero_state 1 "0x08048000"]
    by simp
qed

subsection \<open>Memory-mapped files: rejected requests\<close>

declare mmap_overlaps.simps [simp del]
declare mmap_install.simps [simp del]

text \<open>The first loop of \<open>sys_mmap\<close> finds an entry exactly when a page of the range has one.\<close>

lemma mmap_overlaps_iff:
  "mmap_overlaps supt up file_size offset \<longleftrightarrow>
   (\<exists>k. offset + k * 4096 < file_size \<and> vm_supt_has_entry supt (up + of_nat (offset + k * 4096)))"
proof (induction supt up file_size offset rule: mmap_overlaps.induct)
  case (1 supt up file_size offset)
  show ?case
  proof (cases "offset < file_size")
    case False
    then show ?thesis by (subst mmap_overlaps.simps) simp
  next
    case lt: True
    show ?thesis
    proof (cases "vm_supt_has_entry supt (up + of_nat offset)")
      case True
      have "offset + 0 * 4096 < file_size \<and> vm_supt_has_entry supt (up + of_nat (offset + 0 * 4096))"
        using lt True by simp
      then have "\<exists>k. offset + k * 4096 < file_size \<and> vm_supt_has_entry supt (up + of_nat (offset + k * 4096))"
        by blast
      then show ?thesis using lt True by (subst mmap_overlaps.simps) simp
    next
      case False
      have step: "mmap_overlaps supt up file_size offset = mmap_overlaps supt up file_size (offset + unat PGSIZE)"
        using lt False by (subst mmap_overlaps.simps) simp
      have ih: "mmap_overlaps supt up file_size (offset + unat PGSIZE) \<longleftrightarrow>
          (\<exists>k. offset + unat PGSIZE + k * 4096 < file_size \<and>
               vm_supt_has_entry supt (up + of_nat (offset + unat PGSIZE + k * 4096)))"
        using "1.IH" [OF lt False] .
      have pg: "unat PGSIZE = 4096" by (simp add: PGSIZE_def)
      have "(\<exists>k. offset + 4096 + k * 4096 < file_size \<and>
               vm_supt_has_entry supt (up + of_nat (offset + 4096 + k * 4096))) \<longleftrightarrow>
            (\<exists>k. offset + k * 4096 < file_size \<and> vm_supt_has_entry supt (up + of_nat (offset + k * 4096)))"
        (is "?L \<longleftrightarrow> ?R")
      proof
        assume ?L
        then obtain k where "offset + 4096 + k * 4096 < file_size"
          "vm_supt_has_entry supt (up + of_nat (offset + 4096 + k * 4096))" by blast
        then have "offset + Suc k * 4096 < file_size \<and>
                   vm_supt_has_entry supt (up + of_nat (offset + Suc k * 4096))"
          by (simp add: add.assoc)
        then show ?R by blast
      next
        assume ?R
        then obtain k where k: "offset + k * 4096 < file_size"
          "vm_supt_has_entry supt (up + of_nat (offset + k * 4096))" by blast
        have "k \<noteq> 0" using k False by (cases k) auto
        then obtain j where "k = Suc j" by (cases k) auto
        with k have "offset + 4096 + j * 4096 < file_size \<and>
                     vm_supt_has_entry supt (up + of_nat (offset + 4096 + j * 4096))"
          by (simp add: add.assoc)
        then show ?L by blast
      qed
      with step ih pg show ?thesis by simp
    qed
  qed
qed

text \<open>
  C5. \<open>sys_mmap\<close> returns -1 and leaves the state as it was (no SPT entry installed, no
  mmap descriptor recorded, the existing mappings untouched) when \<open>upage\<close> is 0 or not
  page-aligned, when \<open>fd\<close> is stdin or stdout, when the reopened file is empty, or when
  some page of the range to map already has an SPT entry.
\<close>

theorem sys_mmap_rejects:
  assumes "up = 0 \<or> pg_ofs up \<noteq> 0 \<or> fd = 0 \<or> fd = 1 \<or>
     (\<exists>d. find_file_desc (threads st (current st)) fd = Some d \<and> fd_file d \<noteq> 0 \<and>
          file_reopen ext (fd_file d) \<noteq> 0 \<and>
          (file_length st (file_reopen ext (fd_file d)) = 0 \<or>
           (\<exists>k. k * 4096 < file_length st (file_reopen ext (fd_file d)) \<and>
                vm_supt_has_entry (supts st (t_supt (threads st (current st))))
                  (up + of_nat (k * 4096)))))"
  shows "sys_mmap ext st fd up = Inr (st, - 1)"
proof -
  consider (a) "up = 0 \<or> pg_ofs up \<noteq> 0" | (b) "fd = 0 \<or> fd = 1"
    | (c) d where "find_file_desc (threads st (current st)) fd = Some d" "fd_file d \<noteq> 0"
          "file_reopen ext (fd_file d) \<noteq> 0"
          "file_length st (file_reopen ext (fd_file d)) = 0 \<or>
           (\<exists>k. k * 4096 < file_length st (file_reopen ext (fd_file d)) \<and>
                vm_supt_has_entry (supts st (t_supt (threads st (current st))))
                  (up + of_nat (k * 4096)))"
    using assms by blast
  then show ?thesis
  proof cases
    case a then show ?thesis by (auto simp: sys_mmap_def)
  next
    case b then show ?thesis by (auto simp: sys_mmap_def)
  next
    case c
    have ov: "file_length st (file_reopen ext (fd_file d)) \<noteq> 0 \<Longrightarrow>
          mmap_overlaps (supts st (t_supt (threads st (current st)))) up
            (file_length st (file_reopen ext (fd_file d))) 0"
      using c(4) by (simp add: mmap_overlaps_iff)
    show ?thesis using c(1,2,3) ov
      by (auto simp: sys_mmap_def Let_def)
  qed
qed

text \<open>A first mapping of the two-page file succeeds and gets id 1.\<close>

lemma sys_mmap_example:
  "sys_mmap ext_ok files_state 3 0x10000000 = Inr (mapped_state, 1)"
  by (simp add: sys_mmap_def files_state_def mapped_state_def boot_state_def ext_ok_def
      pg_ofs_def find_file_desc_def mmap_overlaps.simps mmap_install.simps PGSIZE_def
      vm_supt_has_entry_def vm_supt_find_def vm_supt_install_filesys_def raw_spte_def Let_def)

theorem sys_mmap_rejects_witness:
  "sys_mmap ext_ok mapped_state 4 0x10001000 = Inr (mapped_state, - 1) \<and>
   sys_mmap ext_ok mapped_state 5 0x20000000 = Inr (mapped_state, - 1) \<and>
   sys_mmap ext_ok mapped_state 1 0x20000000 = Inr (mapped_state, - 1) \<and>
   sys_mmap ext_ok mapped_state 4 0x20000010 = Inr (mapped_state, - 1) \<and>
   sys_mmap ext_ok mapped_state 4 0 = Inr (mapped_state, - 1)"
proof -
  have cur: "threads mapped_state (current mapped_state) =
      \<lparr>t_pagedir = 1, t_supt = 1,
       file_descriptors = [\<lparr>fd_id = 3, fd_file = 7\<rparr>, \<lparr>fd_id = 4, fd_file = 8\<rparr>,
                           \<lparr>fd_id = 5, fd_file = 9\<rparr>],
       mmap_list = [\<lparr>mm_id = 1, mm_file = 107, mm_addr = 0x10000000, mm_size = 8192\<rparr>]\<rparr>"
    by (simp add: mapped_state_def files_state_def boot_state_def)
  have d4: "find_file_desc (threads mapped_state (current mapped_state)) 4 = Some \<lparr>fd_id = 4, fd_file = 8\<rparr>"
    by (simp add: cur find_file_desc_def)
  have d5: "find_file_desc (threads mapped_state (current mapped_state)) 5 = Some \<lparr>fd_id = 5, fd_file = 9\<rparr>"
    by (simp add: cur find_file_desc_def)
  have len4: "file_length mapped_state (file_reopen ext_ok 8) = 4096"
    by (simp add: mapped_state_def files_state_def ext_ok_def)
  have len5: "file_length mapped_state (file_reopen ext_ok 9) = 0"
    by (simp add: mapped_state_def files_state_def ext_ok_def)
  have ro: "file_reopen ext_ok 8 \<noteq> 0" "file_reopen ext_ok 9 \<noteq> 0"
    by (simp_all add: ext_ok_def)
  have ent: "vm_supt_has_entry (supts mapped_state (t_supt (threads mapped_state (current mapped_state))))
               (0x10001000 + of_nat (0 * 4096))"
    by (simp add: cur) (simp add: mapped_state_def vm_supt_has_entry_def vm_supt_find_def)
  have h1: "(0x10001000 :: addr) = 0 \<or> pg_ofs (0x10001000 :: addr) \<noteq> 0 \<or> (4 :: c_int) = 0 \<or> (4 :: c_int) = 1 \<or>
     (\<exists>d. find_file_desc (threads mapped_state (current mapped_state)) 4 = Some d \<and> fd_file d \<noteq> 0 \<and>
          file_reopen ext_ok (fd_file d) \<noteq> 0 \<and>
          (file_length mapped_state (file_reopen ext_ok (fd_file d)) = 0 \<or>
           (\<exists>k. k * 4096 < file_length mapped_state (file_reopen ext_ok (fd_file d)) \<and>
                vm_supt_has_entry (supts mapped_state (t_supt (threads mapped_state (current mapped_state))))
                  (0x10001000 + of_nat (k * 4096)))))"
  proof -
    have "0 * 4096 < file_length mapped_state (file_reopen ext_ok 8)" using len4 by simp
    with ent have "\<exists>k. k * 4096 < file_length mapped_state (file_reopen ext_ok 8) \<and>
        vm_supt_has_entry (supts mapped_state (t_supt (threads mapped_state (current mapped_state))))
                  (0x10001000 + of_nat (k * 4096))" by blast
    with d4 ro show ?thesis by simp
  qed
  have h2: "(0x20000000 :: addr) = 0 \<or> pg_ofs (0x20000000 :: addr) \<noteq> 0 \<or> (5 :: c_int) = 0 \<or> (5 :: c_int) = 1 \<or>
     (\<exists>d. find_file_desc (threads mapped_state (current mapped_state)) 5 = Some d \<and> fd_file d \<noteq> 0 \<and>
          file_reopen ext_ok (fd_file d) \<noteq> 0 \<and>
          (file_length mapped_state (file_reopen ext_ok (fd_file d)) = 0 \<or>
           (\<exists>k. k * 4096 < file_length mapped_state (file_reopen ext_ok (fd_file d)) \<and>
                vm_supt_has_entry (supts mapped_state (t_supt (threads mapped_state (current mapped_state))))
                  (0x20000000 + of_nat (k * 4096)))))"
    using d5 ro len5 by simp
  show ?thesis
    using sys_mmap_rejects [OF h1] sys_mmap_rejects [OF h2]
      sys_mmap_rejects [of "0x20000000" 1 mapped_state ext_ok]
      sys_mmap_rejects [of "0x20000010" 4 mapped_state ext_ok]
      sys_mmap_rejects [of 0 4 mapped_state ext_ok]
    by (simp add: pg_ofs_def)
qed

subsection \<open>Swap store: writing a page out\<close>

lemma spp8: "SECTORS_PER_PAGE = 8"
  by (simp add: SECTORS_PER_PAGE_def PGSIZE_def BLOCK_SECTOR_SIZE_def)

lemma swap_out_loop_fails:
  "i \<in> set is \<Longrightarrow> block_size s \<le> idx * SECTORS_PER_PAGE + of_nat i \<Longrightarrow>
   \<exists>e. swap_out_loop m idx page is s = Inl e"
proof (induction "is" arbitrary: s)
  case Nil then show ?case by simp
next
  case (Cons j js)
  show ?case
  proof (cases "block_write s (idx * SECTORS_PER_PAGE + of_nat j) (m (page + BLOCK_SECTOR_SIZE * of_nat j))")
    case (Inl e) then show ?thesis by simp
  next
    case (Inr s')
    then have bs: "block_size s' = block_size s" and nj: "\<not> block_size s \<le> idx * SECTORS_PER_PAGE + of_nat j"
      by (auto simp: block_write_def split: if_splits)
    with Cons.prems have "i \<in> set js" by auto
    with Cons.IH[of s'] Cons.prems bs Inr show ?thesis by simp
  qed
qed

lemma swap_out_loop_ok:
  "\<forall>i \<in> set is. idx * SECTORS_PER_PAGE + of_nat i < block_size s \<Longrightarrow>
   swap_out_loop m idx page is s =
     Inr (s\<lparr>block_data := fold (\<lambda>i d. d(idx * SECTORS_PER_PAGE + of_nat i := m (page + BLOCK_SECTOR_SIZE * of_nat i))) is (block_data s)\<rparr>)"
proof (induction "is" arbitrary: s)
  case Nil then show ?case by simp
next
  case (Cons j js)
  then show ?case by (simp add: block_write_def not_le[symmetric])
qed

lemma fold_upd_miss:
  "x \<notin> f ` set is \<Longrightarrow> fold (\<lambda>i d. d(f i := g i)) is d x = d x"
  by (induction "is" arbitrary: d) auto

lemma fold_upd_hit:
  "distinct (map f is) \<Longrightarrow> i \<in> set is \<Longrightarrow> fold (\<lambda>i d. d(f i := g i)) is d (f i) = g i"
proof (induction "is" arbitrary: d)
  case Nil then show ?case by simp
next
  case (Cons j js)
  show ?case
  proof (cases "i = j")
    case True
    have "f j \<notin> f ` set js" using Cons.prems by simp
    from fold_upd_miss[OF this, of g "d(f j := g j)"]
    have m1: "fold (\<lambda>i d. d(f i := g i)) js (d(f j := g j)) (f j) = g j" by simp
    show ?thesis unfolding True fold_simps by (rule m1)
  next
    case False
    with Cons.prems Cons.IH show ?thesis by simp
  qed
qed

lemma scan_lt: "v \<in> set b \<Longrightarrow> length (takeWhile (\<lambda>x. x \<noteq> v) b) < length b"
  by (induction b) auto

lemma scan_hit: "v \<in> set b \<Longrightarrow> b ! length (takeWhile (\<lambda>x. x \<noteq> v) b) = v"
  by (induction b) auto

lemma scan_least: "j < length (takeWhile (\<lambda>x. x \<noteq> v) b) \<Longrightarrow> b ! j \<noteq> v"
  by (induction b arbitrary: j) (auto simp: nth_Cons' split: if_splits)

lemma slot_sector_unat:
  fixes idx bs :: "32 word"
  assumes "idx < bs div 8" "i < 8"
  shows "unat (idx * 8 + of_nat i) = unat idx * 8 + i" and "idx * 8 + of_nat i < bs"
proof -
  have kb: "unat idx * 8 + i < unat bs"
    using assms by (simp add: word_less_nat_alt unat_div)
  have "unat bs < 2 ^ 32" using unsigned_less[of bs] by simp
  with kb have lt: "unat idx * 8 + i < 2 ^ 32" by simp
  have e: "idx * 8 + of_nat i = of_nat (unat idx * 8 + i)" by simp
  have "unat (of_nat (unat idx * 8 + i) :: 32 word) = unat idx * 8 + i"
    using lt by (simp only: unat_of_nat) simp
  then show u: "unat (idx * 8 + of_nat i) = unat idx * 8 + i" by (simp only: e)
  show "idx * 8 + of_nat i < bs" using kb u by (simp add: word_less_nat_alt)
qed

lemma slot_sectors_distinct:
  fixes idx :: "32 word"
  shows "distinct (map (\<lambda>i. idx * SECTORS_PER_PAGE + of_nat i) [0 ..< unat SECTORS_PER_PAGE])"
proof -
  have "inj_on (\<lambda>i. idx * 8 + (of_nat i :: 32 word)) {0 ..< 8}"
  proof (rule inj_onI)
    fix x y :: nat assume a: "x \<in> {0..<8}" "y \<in> {0..<8}" "idx * 8 + of_nat x = idx * 8 + (of_nat y :: 32 word)"
    then have "(of_nat x :: 32 word) = of_nat y" by simp
    then have "take_bit 32 x = take_bit 32 y" by (simp add: word_of_nat_eq_iff)
    moreover have "x < 2 ^ 32" "y < 2 ^ 32" using a by simp_all
    ultimately show "x = y" by (simp add: take_bit_nat_eq_self)
  qed
  then show ?thesis by (simp add: spp8 distinct_map)
qed

text \<open>
  C2. With a free slot, \<open>vm_swap_out\<close> returns the lowest-indexed free slot, has written
  the \<open>SECTORS_PER_PAGE\<close> sector-sized chunks of the page to that slot's sectors (and to
  no other sector) and has marked the slot occupied. With no free slot the call does not
  return: \<open>bitmap_scan\<close> gives \<open>BITMAP_ERROR\<close>, and the write loop reaches sector
  \<open>0xffffffff\<close> at the latest, which no device holds.
\<close>

theorem vm_swap_out_first_free_or_panic:
  assumes inv: "swap_inv s" and kern: "PHYS_BASE \<le> page"
  shows "(True \<in> set (swap_available s) \<longrightarrow>
           (\<exists>k s'. k < length (swap_available s) \<and> swap_available s ! k \<and>
                   (\<forall>j<k. \<not> swap_available s ! j) \<and>
                   vm_swap_out m s page = Inr (s', of_nat k) \<and>
                   swap_available s' = (swap_available s)[k := False] \<and>
                   (\<forall>i < unat SECTORS_PER_PAGE.
                      block_data s' (of_nat k * SECTORS_PER_PAGE + of_nat i) =
                        m (page + BLOCK_SECTOR_SIZE * of_nat i)) \<and>
                   (\<forall>sec. (\<forall>i < unat SECTORS_PER_PAGE. sec \<noteq> of_nat k * SECTORS_PER_PAGE + of_nat i) \<longrightarrow>
                      block_data s' sec = block_data s sec) \<and>
                   block_size s' = block_size s \<and> swap_size s' = swap_size s)) \<and>
         (True \<notin> set (swap_available s) \<longrightarrow> (\<exists>e. vm_swap_out m s page = Inl e))"
proof (intro conjI impI)
  assume free: "True \<in> set (swap_available s)"
  define k where "k = length (takeWhile (\<lambda>x. x \<noteq> True) (swap_available s))"
  define idx :: "32 word" where "idx = of_nat k"
  define f where "f = (\<lambda>i. idx * SECTORS_PER_PAGE + (of_nat i :: 32 word))"
  define g where "g = (\<lambda>i. m (page + BLOCK_SECTOR_SIZE * of_nat i))"
  define s1 where "s1 = s\<lparr>block_data := fold (\<lambda>i d. d(f i := g i)) [0 ..< unat SECTORS_PER_PAGE] (block_data s)\<rparr>"
  define s' where "s' = s1\<lparr>swap_available := (swap_available s)[k := False]\<rparr>"
  have klt: "k < length (swap_available s)" unfolding k_def using free by (rule scan_lt)
  have khit: "swap_available s ! k" unfolding k_def using scan_hit[OF free] by simp
  have kleast: "\<forall>j<k. \<not> swap_available s ! j" unfolding k_def using scan_least[of _ True "swap_available s"] by auto
  have scan: "bitmap_scan (swap_available s) True = idx"
    using free by (simp add: bitmap_scan_def idx_def k_def)
  have len: "length (swap_available s) = unat (block_size s div 8)"
    using inv by (simp add: swap_inv_def spp8)
  have "unat (block_size s div 8) < 2 ^ 32" using unsigned_less[of "block_size s div 8"] by simp
  then have "k < 2 ^ 32" using klt len by simp
  then have uidx: "unat idx = k" by (simp add: idx_def unat_of_nat)
  have idxlt: "idx < block_size s div 8" using klt len uidx by (simp add: word_less_nat_alt)
  have inrange: "\<forall>i \<in> set [0 ..< unat SECTORS_PER_PAGE]. idx * SECTORS_PER_PAGE + of_nat i < block_size s"
    using slot_sector_unat(2)[OF idxlt] by (simp add: spp8)
  have loop: "swap_out_loop m idx page [0 ..< unat SECTORS_PER_PAGE] s = Inr s1"
    using swap_out_loop_ok[OF inrange, of m page] by (simp add: s1_def f_def g_def)
  have run: "vm_swap_out m s page = Inr (s', idx)"
    using kern klt by (simp add: vm_swap_out_def scan loop bitmap_set_def uidx s'_def s1_def not_less)
  have dist: "distinct (map f [0 ..< unat SECTORS_PER_PAGE])"
    unfolding f_def by (rule slot_sectors_distinct)
  have written: "\<forall>i < unat SECTORS_PER_PAGE. block_data s' (f i) = g i"
    using fold_upd_hit[OF dist, of _ g "block_data s"] by (simp add: s'_def s1_def)
  have others: "\<forall>sec. (\<forall>i < unat SECTORS_PER_PAGE. sec \<noteq> f i) \<longrightarrow> block_data s' sec = block_data s sec"
  proof (intro allI impI)
    fix sec assume "\<forall>i < unat SECTORS_PER_PAGE. sec \<noteq> f i"
    then have "sec \<notin> f ` set [0 ..< unat SECTORS_PER_PAGE]" by auto
    from fold_upd_miss[OF this, of g "block_data s"]
    show "block_data s' sec = block_data s sec" by (simp add: s'_def s1_def)
  qed
  have "k < length (swap_available s) \<and> swap_available s ! k \<and>
                   (\<forall>j<k. \<not> swap_available s ! j) \<and>
                   vm_swap_out m s page = Inr (s', of_nat k) \<and>
                   swap_available s' = (swap_available s)[k := False] \<and>
                   (\<forall>i < unat SECTORS_PER_PAGE.
                      block_data s' (of_nat k * SECTORS_PER_PAGE + of_nat i) =
                        m (page + BLOCK_SECTOR_SIZE * of_nat i)) \<and>
                   (\<forall>sec. (\<forall>i < unat SECTORS_PER_PAGE. sec \<noteq> of_nat k * SECTORS_PER_PAGE + of_nat i) \<longrightarrow>
                      block_data s' sec = block_data s sec) \<and>
                   block_size s' = block_size s \<and> swap_size s' = swap_size s"
    using klt khit kleast run written others
    by (simp add: idx_def[symmetric] f_def g_def s'_def s1_def)
  then show "\<exists>k s'. k < length (swap_available s) \<and> swap_available s ! k \<and>
                   (\<forall>j<k. \<not> swap_available s ! j) \<and>
                   vm_swap_out m s page = Inr (s', of_nat k) \<and>
                   swap_available s' = (swap_available s)[k := False] \<and>
                   (\<forall>i < unat SECTORS_PER_PAGE.
                      block_data s' (of_nat k * SECTORS_PER_PAGE + of_nat i) =
                        m (page + BLOCK_SECTOR_SIZE * of_nat i)) \<and>
                   (\<forall>sec. (\<forall>i < unat SECTORS_PER_PAGE. sec \<noteq> of_nat k * SECTORS_PER_PAGE + of_nat i) \<longrightarrow>
                      block_data s' sec = block_data s sec) \<and>
                   block_size s' = block_size s \<and> swap_size s' = swap_size s"
    by blast
next
  assume full: "True \<notin> set (swap_available s)"
  have scan: "bitmap_scan (swap_available s) True = BITMAP_ERROR"
    using full by (simp add: bitmap_scan_def)
  have last: "BITMAP_ERROR * SECTORS_PER_PAGE + of_nat 7 = (- 1 :: 32 word)"
    by (simp add: BITMAP_ERROR_def spp8)
  have "block_size s \<le> BITMAP_ERROR * SECTORS_PER_PAGE + of_nat 7"
    unfolding last by simp
  moreover have "7 \<in> set [0 ..< unat SECTORS_PER_PAGE]" by (simp add: spp8)
  ultimately obtain e where "swap_out_loop m BITMAP_ERROR page [0 ..< unat SECTORS_PER_PAGE] s = Inl e"
    using swap_out_loop_fails by blast
  then show "\<exists>e. vm_swap_out m s page = Inl e"
    by (simp add: vm_swap_out_def scan)
qed

lemma vm_swap_init_inv: "vm_swap_init dev = Inr s \<Longrightarrow> swap_inv s"
  by (auto simp: vm_swap_init_def swap_inv_def split: if_splits option.splits)

theorem vm_swap_out_first_free_or_panic_witness:
  "swap_inv swap_half \<and> PHYS_BASE \<le> 0xc0100000 \<and> True \<in> set (swap_available swap_half) \<and>
   (\<exists>s'. vm_swap_out mem_pattern swap_half 0xc0100000 = Inr (s', 1) \<and>
         swap_available s' = [False, False] \<and>
         block_data s' 8 = mem_pattern 0xc0100000 \<and>
         block_data s' 15 = mem_pattern 0xc0100e00) \<and>
   swap_inv swap_full \<and> True \<notin> set (swap_available swap_full) \<and>
   (\<exists>e. vm_swap_out mem_pattern swap_full 0xc0100000 = Inl e)"
proof -
  have inv: "swap_inv swap_half" "swap_inv swap_full"
    by (simp_all add: swap_inv_def swap_half_def swap_full_def spp8)
  have kern: "PHYS_BASE \<le> 0xc0100000" by (simp add: PHYS_BASE_def)
  have free: "True \<in> set (swap_available swap_half)" by (simp add: swap_half_def)
  have full: "True \<notin> set (swap_available swap_full)" by (simp add: swap_full_def)
  from vm_swap_out_first_free_or_panic [OF inv(1) kern, of mem_pattern] free
  obtain k s' where k: "k < length (swap_available swap_half)" "swap_available swap_half ! k"
    and run: "vm_swap_out mem_pattern swap_half 0xc0100000 = Inr (s', of_nat k)"
    and av: "swap_available s' = (swap_available swap_half)[k := False]"
    and wr: "\<forall>i < unat SECTORS_PER_PAGE.
               block_data s' (of_nat k * SECTORS_PER_PAGE + of_nat i) =
               mem_pattern (0xc0100000 + BLOCK_SECTOR_SIZE * of_nat i)"
    by blast
  have k1: "k = 1"
  proof -
    from k(1) have "k = 0 \<or> k = 1" by (auto simp: swap_half_def)
    with k(2) show ?thesis by (auto simp: swap_half_def)
  qed
  have w0: "block_data s' 8 = mem_pattern 0xc0100000"
    using wr [rule_format, of 0] by (simp add: k1 spp8)
  have w7: "block_data s' 15 = mem_pattern 0xc0100e00"
    using wr [rule_format, of 7] by (simp add: k1 spp8 BLOCK_SECTOR_SIZE_def)
  have half: "\<exists>s'. vm_swap_out mem_pattern swap_half 0xc0100000 = Inr (s', 1) \<and>
         swap_available s' = [False, False] \<and>
         block_data s' 8 = mem_pattern 0xc0100000 \<and>
         block_data s' 15 = mem_pattern 0xc0100e00"
    using run av w0 w7 by (simp add: k1 swap_half_def)
  from vm_swap_out_first_free_or_panic [OF inv(2) kern, of mem_pattern] full
  have "\<exists>e. vm_swap_out mem_pattern swap_full 0xc0100000 = Inl e" by blast
  with inv kern free full half show ?thesis by simp
qed

subsection \<open>The SPT invariant: a frame address exactly for resident pages\<close>

declare evict_loop.simps [simp del]

text \<open>The scan for a victim moves the hand and clears accessed bits, nothing else.\<close>

lemma clock_frame_next_state:
  "clock_frame_next st = Inr (st1, r) \<Longrightarrow> \<exists>h. st1 = st\<lparr>clock_ptr := h\<rparr>"
  by (auto simp: clock_frame_next_def split: if_splits hand.splits)

lemma evict_loop_state:
  "snd (evict_loop pd n i st) = Inr (st', r) \<Longrightarrow>
   \<exists>h pds. st' = st\<lparr>clock_ptr := h, pagedirs := pds\<rparr>"
proof (induction pd n i st rule: evict_loop.induct)
  case (1 pagedir n i st)
  show ?case
  proof (cases "i \<le> n * 2")
    case False
    with "1.prems" show ?thesis by (subst (asm) evict_loop.simps) simp
  next
    case le: True
    show ?thesis
    proof (cases "clock_frame_next st")
      case (Inl e)
      with le "1.prems" show ?thesis by (subst (asm) evict_loop.simps) simp
    next
      case (Inr p)
      obtain st1 r1 where p: "p = (st1, r1)" by (cases p)
      from Inr p obtain h where st1: "st1 = st\<lparr>clock_ptr := h\<rparr>"
        using clock_frame_next_state by blast
      show ?thesis
      proof (cases "fte_is_pinned (entry_at st1 r1)")
        case True
        with le Inr p "1.prems" have "snd (evict_loop pagedir n (i + 1) st1) = Inr (st', r)"
          by (subst (asm) evict_loop.simps) (simp add: cons_log_def)
        from "1.IH"(1) [OF le Inr p [symmetric] True this] st1 show ?thesis by auto
      next
        case np: False
        show ?thesis
        proof (cases "pagedir_is_accessed (pagedirs st1 pagedir) (fte_upage (entry_at st1 r1))")
          case True
          with np le Inr p "1.prems"
          have "snd (evict_loop pagedir n (i + 1)
                 (st1\<lparr>pagedirs := (pagedirs st1)
                    (pagedir := pagedir_set_accessed (pagedirs st1 pagedir)
                                  (fte_upage (entry_at st1 r1)) False)\<rparr>)) = Inr (st', r)"
            by (subst (asm) evict_loop.simps) (simp add: cons_log_def)
          from "1.IH"(2) [OF le Inr p [symmetric] np True this] st1 show ?thesis by auto
        next
          case False
          with np le Inr p "1.prems" have "st' = st1"
            by (subst (asm) evict_loop.simps) simp
          with st1 show ?thesis
            by (metis vm_state.surjective vm_state.update_convs(6) vm_state.update_convs(3))
        qed
      qed
    qed
  qed
qed

lemma frame_to_be_evicted_state:
  "snd (frame_to_be_evicted pd st) = Inr (st', r) \<Longrightarrow>
   \<exists>h pds. st' = st\<lparr>clock_ptr := h, pagedirs := pds\<rparr>"
  by (auto simp: frame_to_be_evicted_def Let_def split: if_splits dest: evict_loop_state)

lemma supt_inv_Cons: "supt_inv ((k, e) # supt) \<longleftrightarrow> spte_inv e \<and> supt_inv supt"
  by (simp add: supt_inv_def)

lemma spte_update_inv:
  "supt_inv supt \<Longrightarrow> (\<And>e. spte_inv e \<Longrightarrow> spte_inv (f e)) \<Longrightarrow> supt_inv (spte_update page f supt)"
  by (induction supt) (auto simp: supt_inv_def spte_update_def split: if_splits)

lemma vm_supt_set_swap_inv: "supt_inv supt \<Longrightarrow> supt_inv (fst (vm_supt_set_swap supt page idx))"
  by (auto simp: vm_supt_set_swap_def spte_inv_def split: option.splits intro!: spte_update_inv)

lemma vm_supt_set_dirty_inv:
  "supt_inv supt \<Longrightarrow> vm_supt_set_dirty supt page v = Inr (supt', r) \<Longrightarrow> supt_inv supt'"
  by (auto simp: vm_supt_set_dirty_def spte_inv_def split: option.splits intro!: spte_update_inv)

lemma vm_frame_do_free_supts: "vm_frame_do_free st k b = Inr st' \<Longrightarrow> supts st' = supts st"
  by (auto simp: vm_frame_do_free_def palloc_free_page_def Let_def split: if_splits option.splits)

lemma palloc_get_page_supts: "palloc_get_page st fl = (st', p) \<Longrightarrow> supts st' = supts st"
  by (auto simp: palloc_get_page_def Let_def split: list.splits if_splits)

lemma vm_frame_evict_inv:
  assumes inv: "\<forall>p. supt_inv (supts st p)" and run: "vm_frame_evict st flags = Inr (st', k)"
  shows "\<forall>p. supt_inv (supts st' p)"
proof -
  from run obtain st1 i where sel:
    "snd (frame_to_be_evicted (t_pagedir (threads st (current st))) st) = Inr (st1, Ring i)"
    by (auto simp: vm_frame_evict_def split: sum.splits entry_ref.splits if_splits)
  then obtain h pds where st1: "st1 = st\<lparr>clock_ptr := h, pagedirs := pds\<rparr>"
    using frame_to_be_evicted_state by blast
  define ev where "ev = frame_list st1 ! i"
  define owner where "owner = threads st1 (fte_t ev)"
  define pd where "pd = t_pagedir owner"
  define st2 where "st2 = st1\<lparr>pagedirs := (pagedirs st1)
                            (pd := pagedir_clear_page (pagedirs st1 pd) (fte_upage ev))\<rparr>"
  from run sel obtain sw idx where out: "vm_swap_out (mem st2) (swap st2) (fte_kpage ev) = Inr (sw, idx)"
    by (auto simp: vm_frame_evict_def Let_def ev_def owner_def pd_def st2_def
        split: sum.splits if_splits)
  define st4 where "st4 = st2\<lparr>swap := sw, supts := (supts st2)
        (t_supt owner := fst (vm_supt_set_swap (supts st2 (t_supt owner)) (fte_upage ev) idx))\<rparr>"
  define dirty where "dirty = (pagedir_is_dirty (pagedirs st2 pd) (fte_upage ev) \<or>
                             pagedir_is_dirty (pagedirs st2 pd) (fte_kpage ev))"
  from run sel out obtain supt' r where sd:
    "vm_supt_set_dirty (supts st4 (t_supt owner)) (fte_upage ev) dirty = Inr (supt', r)"
    by (auto simp: vm_frame_evict_def Let_def ev_def owner_def pd_def st2_def st4_def dirty_def
        split: sum.splits if_splits)
  from run sel out sd obtain st5 where fr:
    "vm_frame_do_free (st4\<lparr>supts := (supts st4)(t_supt owner := supt')\<rparr>) (fte_kpage ev) True = Inr st5"
    by (auto simp: vm_frame_evict_def Let_def ev_def owner_def pd_def st2_def st4_def dirty_def
        split: sum.splits if_splits)
  from run sel out sd fr have fin: "palloc_get_page st5 (flags\<lparr>pal_user := True\<rparr>) = (st', k)"
    by (auto simp: vm_frame_evict_def Let_def ev_def owner_def pd_def st2_def st4_def dirty_def
        split: sum.splits if_splits prod.splits)
  have i2: "\<forall>p. supt_inv (supts st2 p)" using inv by (simp add: st2_def st1)
  have i4: "\<forall>p. supt_inv (supts st4 p)" using i2 by (simp add: st4_def vm_supt_set_swap_inv)
  have "supt_inv supt'" using vm_supt_set_dirty_inv [OF _ sd] i4 by simp
  with i4 have "\<forall>p. supt_inv (supts (st4\<lparr>supts := (supts st4)(t_supt owner := supt')\<rparr>) p)" by simp
  then have "\<forall>p. supt_inv (supts st5 p)" using vm_frame_do_free_supts [OF fr] by simp
  then show ?thesis using palloc_get_page_supts [OF fin] by simp
qed

lemma vm_frame_alloc_inv:
  assumes inv: "\<forall>p. supt_inv (supts st p)" and run: "vm_frame_alloc ext st flags up = Inr (st', k)"
  shows "\<forall>p. supt_inv (supts st' p)"
proof -
  obtain st0 p0 where g: "palloc_get_page st (flags\<lparr>pal_user := True\<rparr>) = (st0, p0)"
    by (cases "palloc_get_page st (flags\<lparr>pal_user := True\<rparr>)")
  have i0: "\<forall>p. supt_inv (supts st0 p)" using inv palloc_get_page_supts [OF g] by simp
  from run g obtain st1 fp where mid: "(if p0 = 0 then vm_frame_evict st0 flags else Inr (st0, p0)) = Inr (st1, fp)"
    by (auto simp: vm_frame_alloc_def split: sum.splits)
  have i1: "\<forall>p. supt_inv (supts st1 p)"
  proof (cases "p0 = 0")
    case True
    with mid i0 show ?thesis using vm_frame_evict_inv by simp
  next
    case False
    with mid i0 show ?thesis by simp
  qed
  from run g mid have "supts st' = supts st1"
    by (auto simp: vm_frame_alloc_def split: if_splits)
  with i1 show ?thesis by simp
qed

lemma vm_load_page_fill_supts:
  "vm_load_page_fill ext st spte fp = Inr (st2, filled, w) \<Longrightarrow> supts st2 = supts st"
  by (auto simp: vm_load_page_fill_def split: page_status.splits sum.splits if_splits)

lemma vm_frame_set_pinned_supts: "vm_frame_set_pinned st k v = Inr st' \<Longrightarrow> supts st' = supts st"
  by (auto simp: vm_frame_set_pinned_def split: option.splits)

lemma vm_load_page_inv:
  assumes inv: "\<forall>p. supt_inv (supts st p)" and run: "vm_load_page ext st supt pagedir up = Inr (st', r)"
  shows "\<forall>p. supt_inv (supts st' p)"
proof (cases "vm_supt_find (supts st supt) up")
  case None
  with run inv show ?thesis by (simp add: vm_load_page_def)
next
  case (Some spte0)
  show ?thesis
  proof (cases "status spte0 = ON_FRAME")
    case True
    with Some run inv show ?thesis by (simp add: vm_load_page_def)
  next
    case nf: False
    from run Some nf obtain st1 fp where al: "vm_frame_alloc ext st PAL_USER up = Inr (st1, fp)"
      by (auto simp: vm_load_page_def split: sum.splits)
    have i1: "\<forall>p. supt_inv (supts st1 p)" using vm_frame_alloc_inv [OF inv al] .
    show ?thesis
    proof (cases "fp = 0")
      case True
      with run Some nf al i1 show ?thesis by (simp add: vm_load_page_def)
    next
      case fp: False
      from run Some nf al fp obtain spte where f1: "vm_supt_find (supts st1 supt) up = Some spte"
        by (auto simp: vm_load_page_def split: option.splits)
      from run Some nf al fp f1 obtain st2 filled w where
        fill: "vm_load_page_fill ext st1 spte fp = Inr (st2, filled, w)"
        by (auto simp: vm_load_page_def split: sum.splits)
      have i2: "\<forall>p. supt_inv (supts st2 p)" using i1 vm_load_page_fill_supts [OF fill] by simp
      show ?thesis
      proof (cases filled)
        case False
        with run Some nf al fp f1 fill obtain st3 where "vm_frame_free st2 fp = Inr st3" "st' = st3"
          by (auto simp: vm_load_page_def split: sum.splits)
        with i2 show ?thesis using vm_frame_do_free_supts by (simp add: vm_frame_free_def)
      next
        case filled: True
        define st3 where "st3 = st2\<lparr>pagedirs := (pagedirs st2)
            (pagedir := fst (pagedir_set_page (set_page_ok ext) (pagedirs st2 pagedir) up fp w))\<rparr>"
        have i3: "\<forall>p. supt_inv (supts st3 p)" using i2 by (simp add: st3_def)
        show ?thesis
        proof (cases "set_page_ok ext")
          case False
          with run Some nf al fp f1 fill filled obtain st4 where
            "vm_frame_free st3 fp = Inr st4" "st' = st4"
            by (auto simp: vm_load_page_def pagedir_set_page_def st3_def split: sum.splits)
          with i3 show ?thesis using vm_frame_do_free_supts by (simp add: vm_frame_free_def)
        next
          case True
          define st5 where "st5 = st3\<lparr>supts := (supts st3)
               (supt := spte_update up (\<lambda>e. e\<lparr>kpage := fp, status := ON_FRAME\<rparr>) (supts st3 supt)),
             pagedirs := (pagedirs st3)
               (pagedir := pagedir_set_dirty (pagedirs st3 pagedir) fp False)\<rparr>"
          from run Some nf al fp f1 fill filled True have "vm_frame_unpin st5 fp = Inr st'"
            by (auto simp: vm_load_page_def pagedir_set_page_def st3_def st5_def Let_def
                split: sum.splits)
          then have s: "supts st' = supts st5"
            using vm_frame_set_pinned_supts by (simp add: vm_frame_unpin_def)
          have "supt_inv (spte_update up (\<lambda>e. e\<lparr>kpage := fp, status := ON_FRAME\<rparr>) (supts st3 supt))"
            using i3 fp by (intro spte_update_inv) (simp_all add: spte_inv_def)
          with i3 have "\<forall>p. supt_inv (supts st5 p)" by (simp add: st5_def)
          with s show ?thesis by simp
        qed
      qed
    qed
  qed
qed

text \<open>
  C8. Every SPT operation keeps the invariant that an entry's \<open>kpage\<close> is non-NULL
  exactly when its status is \<open>ON_FRAME\<close>: \<open>vm_supt_install_frame\<close> with a non-NULL
  \<open>kpage\<close>, \<open>vm_supt_install_zeropage\<close>, \<open>vm_supt_install_filesys\<close>, \<open>vm_supt_set_swap\<close>,
  \<open>vm_load_page\<close> (whatever it returns) and the eviction branch of \<open>vm_frame_alloc\<close>, which
  moves the victim's entry to \<open>ON_SWAP\<close>.
\<close>

theorem spt_operations_keep_kpage_iff_on_frame:
  "(kp \<noteq> 0 \<and> supt_inv supt \<longrightarrow> supt_inv (fst (vm_supt_install_frame raw supt up kp))) \<and>
   (\<forall>supt' r. supt_inv supt \<and> vm_supt_install_zeropage raw supt up = Inr (supt', r) \<longrightarrow>
      supt_inv supt') \<and>
   (\<forall>supt' r. supt_inv supt \<and> vm_supt_install_filesys raw supt up f ofs rb zb w = Inr (supt', r) \<longrightarrow>
      supt_inv supt') \<and>
   (supt_inv supt \<longrightarrow> supt_inv (fst (vm_supt_set_swap supt up idx))) \<and>
   (\<forall>st' r. (\<forall>p. supt_inv (supts st p)) \<and> vm_load_page ext st sp pd up = Inr (st', r) \<longrightarrow>
      (\<forall>p. supt_inv (supts st' p))) \<and>
   (\<forall>st' k. (\<forall>p. supt_inv (supts st p)) \<and> vm_frame_evict st flags = Inr (st', k) \<longrightarrow>
      (\<forall>p. supt_inv (supts st' p)))"
proof (intro conjI allI impI)
  assume "kp \<noteq> 0 \<and> supt_inv supt"
  then show "supt_inv (fst (vm_supt_install_frame raw supt up kp))"
    by (auto simp: vm_supt_install_frame_def Let_def supt_inv_Cons spte_inv_def split: option.splits)
next
  fix supt' r
  assume "supt_inv supt \<and> vm_supt_install_zeropage raw supt up = Inr (supt', r)"
  then show "supt_inv supt'"
    by (auto simp: vm_supt_install_zeropage_def Let_def supt_inv_Cons spte_inv_def split: option.splits)
next
  fix supt' r
  assume "supt_inv supt \<and> vm_supt_install_filesys raw supt up f ofs rb zb w = Inr (supt', r)"
  then show "supt_inv supt'"
    by (auto simp: vm_supt_install_filesys_def Let_def supt_inv_Cons spte_inv_def split: option.splits)
next
  assume "supt_inv supt"
  then show "supt_inv (fst (vm_supt_set_swap supt up idx))" by (rule vm_supt_set_swap_inv)
next
  fix st' r p
  assume "(\<forall>p. supt_inv (supts st p)) \<and> vm_load_page ext st sp pd up = Inr (st', r)"
  then show "supt_inv (supts st' p)" using vm_load_page_inv by blast
next
  fix st' k p
  assume "(\<forall>p. supt_inv (supts st p)) \<and> vm_frame_evict st flags = Inr (st', k)"
  then show "supt_inv (supts st' p)" using vm_frame_evict_inv by blast
qed

lemma upt8: "[0..<8] = [0, 1, 2, 3, 4, 5, 6, 7]"
  by code_simp

lemmas fixture_defs = full_state_def boot_state_def zero_state_def resident_state_def
  raw_spte_def ext_ok_def swap_half_def swap_full_def

lemmas model_defs = vm_frame_evict_def vm_frame_alloc_def frame_to_be_evicted_def
  evict_loop.simps clock_frame_next_def entry_at_def cons_log_def
  pagedir_is_accessed_def pagedir_set_accessed_def pagedir_is_dirty_def pagedir_set_dirty_def
  pagedir_clear_page_def pagedir_set_page_def
  vm_swap_out_def vm_swap_in_def vm_swap_free_def bitmap_scan_def bitmap_set_def bitmap_test_def
  block_write_def block_read_def spp8 BLOCK_SECTOR_SIZE_def PHYS_BASE_def PGSIZE_def
  vm_supt_set_swap_def vm_supt_set_dirty_def vm_supt_find_def spte_update_def
  vm_frame_do_free_def vm_frame_free_def vm_frame_set_pinned_def vm_frame_unpin_def vm_frame_pin_def
  hand_after_remove_def is_kernel_vaddr_def pg_ofs_def
  palloc_get_page_def palloc_free_page_def PAL_USER_def PAL_NONE_def
  vm_load_page_def vm_load_page_fill_def vm_load_page_from_filesys_def memset_page_def page_chunks_def
  upt8 Let_def

text \<open>The example states, run through the model.\<close>

lemma scan_full_state:
  "frame_to_be_evicted 1 full_state = ([Ring 0], Inr (full_state\<lparr>clock_ptr := Hand_at 0\<rparr>, Ring 0))"
  by (simp add: model_defs fixture_defs)

lemma evict_full_state: "\<exists>st'. vm_frame_evict full_state PAL_USER = Inr (st', 0xc0100000)"
  by (simp add: model_defs fixture_defs)

lemma load_zero_state: "\<exists>st'. vm_load_page ext_ok zero_state 1 1 0x08048000 = Inr (st', True)"
  by (simp add: model_defs fixture_defs)

lemma load_full_state: "\<exists>st'. vm_load_page ext_ok full_state 1 1 0x08050000 = Inr (st', True)"
  by (simp add: model_defs fixture_defs)

theorem spt_operations_keep_kpage_iff_on_frame_witness:
  "supt_inv [] \<and> (0xc0100000 :: addr) \<noteq> 0 \<and>
   supt_inv (fst (vm_supt_install_frame raw_spte [] 0x08048000 0xc0100000)) \<and>
   (\<exists>s r. vm_supt_install_zeropage raw_spte [] 0x08048000 = Inr (s, r) \<and> supt_inv s) \<and>
   (\<exists>s r. vm_supt_install_filesys raw_spte [] 0x08048000 7 0 4096 0 True = Inr (s, r) \<and> supt_inv s) \<and>
   supt_inv (supts resident_state 1) \<and>
   supt_inv (fst (vm_supt_set_swap (supts resident_state 1) 0x08048000 1)) \<and>
   (\<forall>p. supt_inv (supts full_state p)) \<and>
   (\<exists>st'. vm_load_page ext_ok full_state 1 1 0x08050000 = Inr (st', True) \<and>
          (\<forall>p. supt_inv (supts st' p))) \<and>
   (\<exists>st' k. vm_frame_evict full_state PAL_USER = Inr (st', k) \<and> (\<forall>p. supt_inv (supts st' p)))"
proof -
  note A = spt_operations_keep_kpage_iff_on_frame
    [where kp = "0xc0100000" and supt = "[]" and raw = raw_spte and up = "0x08048000"
       and f = 7 and ofs = 0 and rb = 4096 and zb = 0 and w = True]
  note B = spt_operations_keep_kpage_iff_on_frame
    [where supt = "supts resident_state 1" and up = "0x08048000" and idx = 1]
  note C = spt_operations_keep_kpage_iff_on_frame
    [where st = full_state and ext = ext_ok and sp = 1 and pd = 1 and up = "0x08050000"
       and flags = PAL_USER]
  have i0: "supt_inv []" by (simp add: supt_inv_def)
  have k0: "(0xc0100000 :: addr) \<noteq> 0" by simp
  have a: "supt_inv (fst (vm_supt_install_frame raw_spte [] 0x08048000 0xc0100000))"
    using A i0 k0 by blast
  obtain sz rz where z: "vm_supt_install_zeropage raw_spte [] 0x08048000 = Inr (sz, rz)"
    by (simp add: vm_supt_install_zeropage_def)
  have zi: "supt_inv sz" using A i0 z by blast
  obtain sf rf where f: "vm_supt_install_filesys raw_spte [] 0x08048000 7 0 4096 0 True = Inr (sf, rf)"
    by (simp add: vm_supt_install_filesys_def)
  have fi: "supt_inv sf" using A i0 f by blast
  have ir: "supt_inv (supts resident_state 1)"
    by (simp add: resident_state_def supt_inv_def spte_inv_def)
  have sw: "supt_inv (fst (vm_supt_set_swap (supts resident_state 1) 0x08048000 1))"
    using B ir by blast
  have invf: "\<forall>p. supt_inv (supts full_state p)"
    by (simp add: full_state_def supt_inv_def spte_inv_def raw_spte_def)
  obtain st1 where l: "vm_load_page ext_ok full_state 1 1 0x08050000 = Inr (st1, True)"
    using load_full_state by blast
  have li: "\<forall>p. supt_inv (supts st1 p)" using C invf l by blast
  obtain st2 where e: "vm_frame_evict full_state PAL_USER = Inr (st2, 0xc0100000)"
    using evict_full_state by blast
  have ei: "\<forall>p. supt_inv (supts st2 p)" using C invf e by blast
  show ?thesis using i0 k0 a z zi f fi ir sw invf l li e ei by blast
qed

subsection \<open>Frame table: allocation\<close>

lemma frame_find_Some: "frame_find fl k = Some i \<Longrightarrow> i < length fl \<and> fte_kpage (fl ! i) = k"
  by (induction fl arbitrary: i) (auto split: if_splits)

lemma palloc_get_page_frames:
  "palloc_get_page st fl = (st', p) \<Longrightarrow>
   frame_list st' = frame_list st \<and> current st' = current st \<and> clock_ptr st' = clock_ptr st"
  by (auto simp: palloc_get_page_def Let_def split: list.splits if_splits)

lemma vm_frame_do_free_frames:
  "vm_frame_do_free st k b = Inr st' \<Longrightarrow>
   current st' = current st \<and>
   (\<exists>i<length (frame_list st). frame_find (frame_list st) k = Some i \<and>
       frame_list st' = take i (frame_list st) @ drop (Suc i) (frame_list st))"
  by (auto simp: vm_frame_do_free_def palloc_free_page_def Let_def
      split: if_splits option.splits dest: frame_find_Some)

lemma vm_frame_evict_frames:
  assumes run: "vm_frame_evict st flags = Inr (st', k)"
  shows "k \<noteq> 0 \<and> current st' = current st \<and>
         (\<exists>i<length (frame_list st).
            frame_list st' = take i (frame_list st) @ drop (Suc i) (frame_list st))"
proof -
  from run obtain st1 i where sel:
    "snd (frame_to_be_evicted (t_pagedir (threads st (current st))) st) = Inr (st1, Ring i)"
    by (auto simp: vm_frame_evict_def split: sum.splits entry_ref.splits if_splits)
  then obtain h pds where st1: "st1 = st\<lparr>clock_ptr := h, pagedirs := pds\<rparr>"
    using frame_to_be_evicted_state by blast
  from run sel obtain stx st5 where
    fr: "vm_frame_do_free stx (fte_kpage (frame_list st1 ! i)) True = Inr st5"
    and stx: "frame_list stx = frame_list st1" "current stx = current st1"
    and fin: "palloc_get_page st5 (flags\<lparr>pal_user := True\<rparr>) = (st', k)" and k: "k \<noteq> 0"
    by (auto simp: vm_frame_evict_def Let_def split: sum.splits if_splits prod.splits)
  from vm_frame_do_free_frames [OF fr] stx st1 palloc_get_page_frames [OF fin] k
  show ?thesis by auto
qed

text \<open>
  C9. When \<open>vm_frame_alloc\<close> returns a page other than \<open>NULL\<close>, the frame table is the
  table it had (minus the victim, when a frame was evicted) with one new entry at the end:
  that page, the \<open>upage\<close> argument, the running thread as owner, pinned. It returns
  \<open>NULL\<close> only when \<open>malloc\<close> of the entry failed.
\<close>

theorem vm_frame_alloc_inserts_pinned_entry:
  assumes run: "vm_frame_alloc ext st flags up = Inr (st', kp)"
  shows "(kp \<noteq> 0 \<longrightarrow>
            (\<exists>fl. frame_list st' =
                     fl @ [\<lparr>fte_kpage = kp, fte_upage = up, fte_t = current st,
                            fte_is_pinned = True\<rparr>] \<and>
                  (fl = frame_list st \<or>
                   (\<exists>i<length (frame_list st).
                      fl = take i (frame_list st) @ drop (Suc i) (frame_list st))))) \<and>
         (kp = 0 \<longrightarrow> \<not> malloc_ok ext)"
proof -
  obtain st0 p0 where g: "palloc_get_page st (flags\<lparr>pal_user := True\<rparr>) = (st0, p0)"
    by (cases "palloc_get_page st (flags\<lparr>pal_user := True\<rparr>)")
  note g0 = palloc_get_page_frames [OF g]
  from run g obtain st1 fp where
    mid: "(if p0 = 0 then vm_frame_evict st0 flags else Inr (st0, p0)) = Inr (st1, fp)"
    by (auto simp: vm_frame_alloc_def split: sum.splits)
  have fp: "fp \<noteq> 0" and cur: "current st1 = current st"
    and fl: "frame_list st1 = frame_list st \<or>
        (\<exists>i<length (frame_list st). frame_list st1 = take i (frame_list st) @ drop (Suc i) (frame_list st))"
  proof -
    show "fp \<noteq> 0" using mid vm_frame_evict_frames by (auto split: if_splits)
    show "current st1 = current st" using mid g0 vm_frame_evict_frames [of st0 flags st1 fp]
      by (auto split: if_splits)
    show "frame_list st1 = frame_list st \<or>
        (\<exists>i<length (frame_list st). frame_list st1 = take i (frame_list st) @ drop (Suc i) (frame_list st))"
      using mid g0 vm_frame_evict_frames [of st0 flags st1 fp] by (auto split: if_splits)
  qed
  show ?thesis
  proof (cases "malloc_ok ext")
    case False
    with run g mid have "kp = 0" by (simp add: vm_frame_alloc_def)
    with False show ?thesis by simp
  next
    case True
    with run g mid have kp: "kp = fp"
      and st': "frame_list st' = frame_list st1 @ [\<lparr>fte_kpage = fp, fte_upage = up, fte_t = current st1,
                            fte_is_pinned = True\<rparr>]"
      by (auto simp: vm_frame_alloc_def)
    with fp cur fl show ?thesis by auto
  qed
qed

lemma alloc_boot_state:
  "\<exists>st'. vm_frame_alloc ext_ok boot_state PAL_USER 0x08048000 = Inr (st', 0xc0100000)"
  by (simp add: model_defs fixture_defs)

lemma alloc_full_state:
  "\<exists>st'. vm_frame_alloc ext_ok full_state PAL_USER 0x08050000 = Inr (st', 0xc0100000)"
  by (simp add: model_defs fixture_defs)

lemma alloc_no_malloc:
  "\<exists>st'. vm_frame_alloc (ext_ok\<lparr>malloc_ok := False\<rparr>) boot_state PAL_USER 0x08048000 = Inr (st', 0)"
  by (simp add: model_defs fixture_defs)

theorem vm_frame_alloc_inserts_pinned_entry_witness:
  "(\<exists>st'. vm_frame_alloc ext_ok boot_state PAL_USER 0x08048000 = Inr (st', 0xc0100000) \<and>
      (\<exists>fl. frame_list st' =
         fl @ [\<lparr>fte_kpage = 0xc0100000, fte_upage = 0x08048000, fte_t = 1, fte_is_pinned = True\<rparr>])) \<and>
   (\<exists>st'. vm_frame_alloc ext_ok full_state PAL_USER 0x08050000 = Inr (st', 0xc0100000) \<and>
      (\<exists>fl. frame_list st' =
         fl @ [\<lparr>fte_kpage = 0xc0100000, fte_upage = 0x08050000, fte_t = 1, fte_is_pinned = True\<rparr>])) \<and>
   (\<exists>st'. vm_frame_alloc (ext_ok\<lparr>malloc_ok := False\<rparr>) boot_state PAL_USER 0x08048000 = Inr (st', 0)) \<and>
   \<not> malloc_ok (ext_ok\<lparr>malloc_ok := False\<rparr>)"
proof -
  have c1: "current boot_state = 1" "current full_state = 1"
    by (simp_all add: fixture_defs)
  obtain s1 where r1: "vm_frame_alloc ext_ok boot_state PAL_USER 0x08048000 = Inr (s1, 0xc0100000)"
    using alloc_boot_state by blast
  obtain s2 where r2: "vm_frame_alloc ext_ok full_state PAL_USER 0x08050000 = Inr (s2, 0xc0100000)"
    using alloc_full_state by blast
  obtain s3 where r3: "vm_frame_alloc (ext_ok\<lparr>malloc_ok := False\<rparr>) boot_state PAL_USER 0x08048000 = Inr (s3, 0)"
    using alloc_no_malloc by blast
  have e1: "\<exists>fl. frame_list s1 =
         fl @ [\<lparr>fte_kpage = 0xc0100000, fte_upage = 0x08048000, fte_t = 1, fte_is_pinned = True\<rparr>]"
    using vm_frame_alloc_inserts_pinned_entry [OF r1] c1 by auto
  have e2: "\<exists>fl. frame_list s2 =
         fl @ [\<lparr>fte_kpage = 0xc0100000, fte_upage = 0x08050000, fte_t = 1, fte_is_pinned = True\<rparr>]"
    using vm_frame_alloc_inserts_pinned_entry [OF r2] c1 by auto
  have e3: "\<not> malloc_ok (ext_ok\<lparr>malloc_ok := False\<rparr>)"
    using vm_frame_alloc_inserts_pinned_entry [OF r3] by simp
  show ?thesis using r1 r2 r3 e1 e2 e3 by blast
qed

subsection \<open>Fault resolver: failures give the frame back\<close>

lemma frame_find_None: "frame_find fl k = None \<longleftrightarrow> k \<notin> set (map fte_kpage fl)"
  by (induction fl) auto

lemma frame_find_append_new:
  "k \<notin> set (map fte_kpage fl) \<Longrightarrow> fte_kpage e = k \<Longrightarrow> frame_find (fl @ [e]) k = Some (length fl)"
  by (induction fl) auto

lemma distinct_removed_kpage:
  assumes d: "distinct (map fte_kpage fl)" and j: "j < length fl"
  shows "fte_kpage (fl ! j) \<notin> set (map fte_kpage (take j fl @ drop (Suc j) fl))"
    and "distinct (map fte_kpage (take j fl @ drop (Suc j) fl))"
proof -
  have "fl = take j fl @ fl ! j # drop (Suc j) fl" using j by (rule id_take_nth_drop)
  then have "distinct (map fte_kpage (take j fl @ fl ! j # drop (Suc j) fl))" using d by simp
  then show "fte_kpage (fl ! j) \<notin> set (map fte_kpage (take j fl @ drop (Suc j) fl))"
    and "distinct (map fte_kpage (take j fl @ drop (Suc j) fl))" by auto
qed

lemma vm_frame_do_free_page:
  "vm_frame_do_free st k True = Inr st' \<Longrightarrow>
   is_kernel_vaddr k \<and> pg_ofs k = 0 \<and> user_pool st' = k # user_pool st \<and>
   (\<exists>j<length (frame_list st). frame_find (frame_list st) k = Some j \<and>
       frame_list st' = take j (frame_list st) @ drop (Suc j) (frame_list st))"
  by (auto simp: vm_frame_do_free_def palloc_free_page_def Let_def
      split: if_splits option.splits dest: frame_find_Some)

lemma vm_frame_evict_page:
  assumes run: "vm_frame_evict st flags = Inr (st', k)"
  shows "is_kernel_vaddr k \<and> pg_ofs k = 0 \<and> user_pool st' = user_pool st \<and>
         (\<exists>j<length (frame_list st). frame_find (frame_list st) k = Some j \<and>
            frame_list st' = take j (frame_list st) @ drop (Suc j) (frame_list st))"
proof -
  from run obtain st1 i where sel:
    "snd (frame_to_be_evicted (t_pagedir (threads st (current st))) st) = Inr (st1, Ring i)"
    by (auto simp: vm_frame_evict_def split: sum.splits entry_ref.splits if_splits)
  then obtain h pds where st1: "st1 = st\<lparr>clock_ptr := h, pagedirs := pds\<rparr>"
    using frame_to_be_evicted_state by blast
  from run sel obtain stx st5 where
    fr: "vm_frame_do_free stx (fte_kpage (frame_list st1 ! i)) True = Inr st5"
    and stx: "frame_list stx = frame_list st1" "user_pool stx = user_pool st1"
    and fin: "palloc_get_page st5 (flags\<lparr>pal_user := True\<rparr>) = (st', k)"
    by (auto simp: vm_frame_evict_def Let_def split: sum.splits if_splits prod.splits)
  note f = vm_frame_do_free_page [OF fr]
  from f fin have "k = fte_kpage (frame_list st1 ! i)" "user_pool st' = user_pool stx"
    "frame_list st' = frame_list st5"
    by (auto simp: palloc_get_page_def Let_def split: if_splits)
  with f stx st1 show ?thesis by auto
qed

lemma vm_frame_alloc_fresh:
  assumes wf: "frames_wf st" and run: "vm_frame_alloc ext st flags up = Inr (st1, fp)"
    and fp: "fp \<noteq> 0"
  shows "is_kernel_vaddr fp \<and> pg_ofs fp = 0 \<and>
         (\<exists>fl e. frame_list st1 = fl @ [e] \<and> fte_kpage e = fp \<and> fp \<notin> set (map fte_kpage fl))"
proof -
  obtain st0 p0 where g: "palloc_get_page st (flags\<lparr>pal_user := True\<rparr>) = (st0, p0)"
    by (cases "palloc_get_page st (flags\<lparr>pal_user := True\<rparr>)")
  from run g obtain sta fa where
    mid: "(if p0 = 0 then vm_frame_evict st0 flags else Inr (st0, p0)) = Inr (sta, fa)"
    by (auto simp: vm_frame_alloc_def split: sum.splits)
  from run g mid fp have fa: "fa = fp"
    and fl1: "frame_list st1 = frame_list sta @ [\<lparr>fte_kpage = fp, fte_upage = up, fte_t = current sta,
                            fte_is_pinned = True\<rparr>]"
    by (auto simp: vm_frame_alloc_def split: if_splits)
  have g0: "frame_list st0 = frame_list st" using palloc_get_page_frames [OF g] by simp
  have "is_kernel_vaddr fa \<and> pg_ofs fa = 0 \<and> fa \<notin> set (map fte_kpage (frame_list sta))"
  proof (cases "p0 = 0")
    case True
    with mid have ev: "vm_frame_evict st0 flags = Inr (sta, fa)" by simp
    from vm_frame_evict_page [OF ev] obtain j where j: "j < length (frame_list st0)"
      "frame_find (frame_list st0) fa = Some j"
      "frame_list sta = take j (frame_list st0) @ drop (Suc j) (frame_list st0)"
      and k: "is_kernel_vaddr fa" "pg_ofs fa = 0" by blast
    have "fte_kpage (frame_list st0 ! j) = fa" using frame_find_Some [OF j(2)] by simp
    moreover have "distinct (map fte_kpage (frame_list st0))" using wf g0 by (simp add: frames_wf_def)
    ultimately have "fa \<notin> set (map fte_kpage (frame_list sta))"
      using distinct_removed_kpage(1) [of "frame_list st0" j] j by simp
    with k show ?thesis by simp
  next
    case False
    with mid have e: "sta = st0" "fa = p0" by simp_all
    from g False have "p0 \<in> set (user_pool st)"
      by (auto simp: palloc_get_page_def Let_def split: list.splits if_splits)
    with wf have "is_kernel_vaddr p0 \<and> pg_ofs p0 = 0 \<and> p0 \<notin> set (map fte_kpage (frame_list st))"
      by (auto simp: frames_wf_def list_all_iff)
    with e g0 show ?thesis by simp
  qed
  with fa fl1 show ?thesis by auto
qed

lemma vm_frame_free_fresh:
  assumes fl: "frame_list st = fl @ [e]" "fte_kpage e = fp" "fp \<notin> set (map fte_kpage fl)"
    and k: "is_kernel_vaddr fp" "pg_ofs fp = 0"
  shows "\<exists>st'. vm_frame_free st fp = Inr st' \<and> frame_find (frame_list st') fp = None \<and>
               fp \<in> set (user_pool st')"
proof -
  have ff: "frame_find (frame_list st) fp = Some (length fl)"
    using fl by (simp add: frame_find_append_new)
  have "frame_find fl fp = None" using fl(3) by (simp add: frame_find_None)
  with ff k fl show ?thesis
    by (simp add: vm_frame_free_def vm_frame_do_free_def palloc_free_page_def Let_def)
qed

lemma vm_load_page_fill_frames:
  "vm_load_page_fill ext st spte fp = Inr (st2, filled, w) \<Longrightarrow> frame_list st2 = frame_list st"
  by (auto simp: vm_load_page_fill_def split: page_status.splits sum.splits if_splits)

lemma vm_load_page_fill_short_read:
  "status spte = FROM_FILESYS \<Longrightarrow> file_read_n ext \<noteq> read_bytes spte \<Longrightarrow>
   \<exists>st2. vm_load_page_fill ext st spte fp = Inr (st2, False, True)"
  by (simp add: vm_load_page_fill_def vm_load_page_from_filesys_def Let_def)

text \<open>
  C3. Without an SPT entry for \<open>upage\<close>, \<open>vm_load_page\<close> returns false and the state is
  untouched (no frame was allocated). When a frame \<open>fp\<close> has been allocated and then either
  the file read of a \<open>FROM_FILESYS\<close> page is short or the page was filled but
  \<open>pagedir_set_page\<close> fails, \<open>vm_load_page\<close> returns false and the frame is reclaimed:
  the frame table has no entry for \<open>fp\<close> and \<open>fp\<close> is back in the user pool. \<open>spte\<close> is
  the entry as \<open>vm_load_page\<close> reads it after the allocation.
\<close>

theorem vm_load_page_failures_reclaim_frame:
  "(vm_supt_find (supts st supt) up = None \<longrightarrow>
      vm_load_page ext st supt pagedir up = Inr (st, False)) \<and>
   (\<forall>spte0 st1 fp spte.
      frames_wf st \<and> vm_supt_find (supts st supt) up = Some spte0 \<and> status spte0 \<noteq> ON_FRAME \<and>
      vm_frame_alloc ext st PAL_USER up = Inr (st1, fp) \<and> fp \<noteq> 0 \<and>
      vm_supt_find (supts st1 supt) up = Some spte \<and>
      ((status spte = FROM_FILESYS \<and> file_read_n ext \<noteq> read_bytes spte) \<or>
       ((\<exists>st2 w. vm_load_page_fill ext st1 spte fp = Inr (st2, True, w)) \<and> \<not> set_page_ok ext))
      \<longrightarrow> (\<exists>st'. vm_load_page ext st supt pagedir up = Inr (st', False) \<and>
                  frame_find (frame_list st') fp = None \<and> fp \<in> set (user_pool st')))"
proof (intro conjI allI impI)
  assume "vm_supt_find (supts st supt) up = None"
  then show "vm_load_page ext st supt pagedir up = Inr (st, False)"
    by (simp add: vm_load_page_def)
next
  fix spte0 st1 fp spte
  assume a: "frames_wf st \<and> vm_supt_find (supts st supt) up = Some spte0 \<and> status spte0 \<noteq> ON_FRAME \<and>
      vm_frame_alloc ext st PAL_USER up = Inr (st1, fp) \<and> fp \<noteq> 0 \<and>
      vm_supt_find (supts st1 supt) up = Some spte \<and>
      ((status spte = FROM_FILESYS \<and> file_read_n ext \<noteq> read_bytes spte) \<or>
       ((\<exists>st2 w. vm_load_page_fill ext st1 spte fp = Inr (st2, True, w)) \<and> \<not> set_page_ok ext))"
  then have wf: "frames_wf st" and f0: "vm_supt_find (supts st supt) up = Some spte0"
    and nf: "status spte0 \<noteq> ON_FRAME" and al: "vm_frame_alloc ext st PAL_USER up = Inr (st1, fp)"
    and fp: "fp \<noteq> 0" and f1: "vm_supt_find (supts st1 supt) up = Some spte"
    by simp_all
  from vm_frame_alloc_fresh [OF wf al fp] obtain fl e where
    k: "is_kernel_vaddr fp" "pg_ofs fp = 0" and
    fl: "frame_list st1 = fl @ [e]" "fte_kpage e = fp" "fp \<notin> set (map fte_kpage fl)" by blast
  from a consider
    (short) "status spte = FROM_FILESYS" "file_read_n ext \<noteq> read_bytes spte"
    | (nomap) st2 w where "vm_load_page_fill ext st1 spte fp = Inr (st2, True, w)" "\<not> set_page_ok ext"
    by blast
  then show "\<exists>st'. vm_load_page ext st supt pagedir up = Inr (st', False) \<and>
                  frame_find (frame_list st') fp = None \<and> fp \<in> set (user_pool st')"
  proof cases
    case short
    then obtain st2 where fill: "vm_load_page_fill ext st1 spte fp = Inr (st2, False, True)"
      using vm_load_page_fill_short_read by blast
    have "frame_list st2 = fl @ [e]" using vm_load_page_fill_frames [OF fill] fl by simp
    from vm_frame_free_fresh [OF this fl(2,3) k] obtain st' where
      "vm_frame_free st2 fp = Inr st'" "frame_find (frame_list st') fp = None"
      "fp \<in> set (user_pool st')" by blast
    with f0 nf al fp f1 fill show ?thesis by (simp add: vm_load_page_def)
  next
    case nomap
    define st3 where "st3 = st2\<lparr>pagedirs := (pagedirs st2)(pagedir := pagedirs st2 pagedir)\<rparr>"
    have "frame_list st3 = fl @ [e]"
      using vm_load_page_fill_frames [OF nomap(1)] fl by (simp add: st3_def)
    from vm_frame_free_fresh [OF this fl(2,3) k] obtain st' where
      "vm_frame_free st3 fp = Inr st'" "frame_find (frame_list st') fp = None"
      "fp \<in> set (user_pool st')" by blast
    with f0 nf al fp f1 nomap show ?thesis
      by (simp add: vm_load_page_def pagedir_set_page_def st3_def)
  qed
qed

lemma alloc_filesys_state:
  "\<exists>st1. vm_frame_alloc ext_ok filesys_state PAL_USER 0x08048000 = Inr (st1, 0xc0100000) \<and>
         supts st1 = supts filesys_state"
  by (simp add: model_defs fixture_defs filesys_state_def)

lemma alloc_zero_state:
  "\<exists>st1. vm_frame_alloc (ext_ok\<lparr>set_page_ok := False\<rparr>) zero_state PAL_USER 0x08048000 =
           Inr (st1, 0xc0100000) \<and>
         supts st1 = supts zero_state"
  by (simp add: model_defs fixture_defs)

theorem vm_load_page_failures_reclaim_frame_witness:
  "vm_supt_find (supts boot_state 1) 0x08048000 = None \<and>
   vm_load_page ext_ok boot_state 1 1 0x08048000 = Inr (boot_state, False) \<and>
   frames_wf filesys_state \<and>
   (\<exists>st'. vm_load_page ext_ok filesys_state 1 1 0x08048000 = Inr (st', False) \<and>
          frame_find (frame_list st') 0xc0100000 = None \<and> 0xc0100000 \<in> set (user_pool st')) \<and>
   frames_wf zero_state \<and> \<not> set_page_ok (ext_ok\<lparr>set_page_ok := False\<rparr>) \<and>
   (\<exists>st'. vm_load_page (ext_ok\<lparr>set_page_ok := False\<rparr>) zero_state 1 1 0x08048000 = Inr (st', False) \<and>
          frame_find (frame_list st') 0xc0100000 = None \<and> 0xc0100000 \<in> set (user_pool st'))"
proof -
  note A = vm_load_page_failures_reclaim_frame
    [where st = boot_state and supt = 1 and up = "0x08048000" and ext = ext_ok and pagedir = 1]
  note B = vm_load_page_failures_reclaim_frame
    [where st = filesys_state and supt = 1 and up = "0x08048000" and ext = ext_ok and pagedir = 1]
  note C = vm_load_page_failures_reclaim_frame
    [where st = zero_state and supt = 1 and up = "0x08048000"
       and ext = "ext_ok\<lparr>set_page_ok := False\<rparr>" and pagedir = 1]
  have n: "vm_supt_find (supts boot_state 1) 0x08048000 = None"
    by (simp add: boot_state_def vm_supt_find_def)
  have a: "vm_load_page ext_ok boot_state 1 1 0x08048000 = Inr (boot_state, False)"
    using A n by blast
  have wf: "frames_wf filesys_state" "frames_wf zero_state"
    by (simp_all add: frames_wf_def filesys_state_def zero_state_def boot_state_def
        is_kernel_vaddr_def PHYS_BASE_def pg_ofs_def)
  define fe where "fe = raw_spte\<lparr>upage := 0x08048000, status := FROM_FILESYS, file := 7,
                        read_bytes := 100, zero_bytes := 3996, writable := False\<rparr>"
  have bf: "vm_supt_find (supts filesys_state 1) 0x08048000 = Some fe"
    by (simp add: filesys_state_def vm_supt_find_def fe_def)
  obtain s1 where b1: "vm_frame_alloc ext_ok filesys_state PAL_USER 0x08048000 = Inr (s1, 0xc0100000)"
    and b2: "supts s1 = supts filesys_state"
    using alloc_filesys_state by blast
  have bs: "status fe \<noteq> ON_FRAME" "status fe = FROM_FILESYS" "file_read_n ext_ok \<noteq> read_bytes fe"
    by (simp_all add: fe_def ext_ok_def)
  have b: "\<exists>st'. vm_load_page ext_ok filesys_state 1 1 0x08048000 = Inr (st', False) \<and>
          frame_find (frame_list st') 0xc0100000 = None \<and> 0xc0100000 \<in> set (user_pool st')"
  proof -
    have h: "frames_wf filesys_state \<and> vm_supt_find (supts filesys_state 1) 0x08048000 = Some fe \<and>
      status fe \<noteq> ON_FRAME \<and>
      vm_frame_alloc ext_ok filesys_state PAL_USER 0x08048000 = Inr (s1, 0xc0100000) \<and>
      (0xc0100000 :: addr) \<noteq> 0 \<and>
      vm_supt_find (supts s1 1) 0x08048000 = Some fe \<and>
      ((status fe = FROM_FILESYS \<and> file_read_n ext_ok \<noteq> read_bytes fe) \<or>
       ((\<exists>st2 w. vm_load_page_fill ext_ok s1 fe 0xc0100000 = Inr (st2, True, w)) \<and>
        \<not> set_page_ok ext_ok))"
      using wf(1) bf bs b1 b2 by simp
    from B [THEN conjunct2, rule_format, OF h] show ?thesis .
  qed
  define ze where "ze = raw_spte\<lparr>upage := 0x08048000\<rparr>"
  have cf: "vm_supt_find (supts zero_state 1) 0x08048000 = Some ze"
    by (simp add: zero_state_def vm_supt_find_def ze_def)
  obtain s2 where c1: "vm_frame_alloc (ext_ok\<lparr>set_page_ok := False\<rparr>) zero_state PAL_USER 0x08048000 = Inr (s2, 0xc0100000)"
    and c2: "supts s2 = supts zero_state"
    using alloc_zero_state by blast
  have cs: "status ze \<noteq> ON_FRAME" "\<not> set_page_ok (ext_ok\<lparr>set_page_ok := False\<rparr>)"
    by (simp_all add: ze_def raw_spte_def)
  have cfill: "\<exists>st2 w. vm_load_page_fill (ext_ok\<lparr>set_page_ok := False\<rparr>) s2 ze 0xc0100000 = Inr (st2, True, w)"
    by (auto simp: vm_load_page_fill_def ze_def raw_spte_def)
  have c: "\<exists>st'. vm_load_page (ext_ok\<lparr>set_page_ok := False\<rparr>) zero_state 1 1 0x08048000 = Inr (st', False) \<and>
          frame_find (frame_list st') 0xc0100000 = None \<and> 0xc0100000 \<in> set (user_pool st')"
  proof -
    have h: "frames_wf zero_state \<and> vm_supt_find (supts zero_state 1) 0x08048000 = Some ze \<and>
      status ze \<noteq> ON_FRAME \<and>
      vm_frame_alloc (ext_ok\<lparr>set_page_ok := False\<rparr>) zero_state PAL_USER 0x08048000 =
        Inr (s2, 0xc0100000) \<and>
      (0xc0100000 :: addr) \<noteq> 0 \<and>
      vm_supt_find (supts s2 1) 0x08048000 = Some ze \<and>
      ((status ze = FROM_FILESYS \<and> file_read_n (ext_ok\<lparr>set_page_ok := False\<rparr>) \<noteq> read_bytes ze) \<or>
       ((\<exists>st2 w. vm_load_page_fill (ext_ok\<lparr>set_page_ok := False\<rparr>) s2 ze 0xc0100000 =
                  Inr (st2, True, w)) \<and>
        \<not> set_page_ok (ext_ok\<lparr>set_page_ok := False\<rparr>)))"
      using wf(2) cf cs c1 c2 cfill by simp
    from C [THEN conjunct2, rule_format, OF h] show ?thesis .
  qed
  show ?thesis using n a wf b cs(2) c by blast
qed

subsection \<open>Unmapping a page that is in swap\<close>

lemma swap_in_loop_ok:
  "\<forall>i \<in> set is. idx * SECTORS_PER_PAGE + of_nat i < block_size s \<Longrightarrow>
   swap_in_loop s idx page is m =
     Inr (fold (\<lambda>i m'. m'(page + BLOCK_SECTOR_SIZE * of_nat i :=
                          block_data s (idx * SECTORS_PER_PAGE + of_nat i))) is m)"
proof (induction "is" arbitrary: m)
  case Nil then show ?case by simp
next
  case (Cons j js)
  then show ?case by (simp add: block_read_def not_le[symmetric] fun_upd_def)
qed

lemma page_chunks_distinct:
  "distinct (map (\<lambda>i. page + BLOCK_SECTOR_SIZE * (of_nat i :: 32 word)) [0 ..< unat SECTORS_PER_PAGE])"
proof -
  have "inj_on (\<lambda>i. page + 512 * (of_nat i :: 32 word)) {0 ..< 8}"
  proof (rule inj_onI)
    fix x y :: nat
    assume a: "x \<in> {0..<8}" "y \<in> {0..<8}"
      "page + 512 * of_nat x = page + 512 * (of_nat y :: 32 word)"
    then have "(of_nat (512 * x) :: 32 word) = of_nat (512 * y)" by simp
    then have "take_bit 32 (512 * x) = take_bit 32 (512 * y)" by (simp only: word_of_nat_eq_iff) simp
    moreover have "512 * x < 2 ^ 32" "512 * y < 2 ^ 32" using a by simp_all
    ultimately show "x = y" by (simp add: take_bit_nat_eq_self)
  qed
  then show ?thesis by (simp add: spp8 BLOCK_SECTOR_SIZE_def distinct_map)
qed

lemma vm_swap_in_ok:
  assumes inv: "swap_inv s" and idx: "idx < swap_size s"
    and occ: "\<not> swap_available s ! unat idx" and kern: "PHYS_BASE \<le> page"
  shows "\<exists>m'. vm_swap_in m s idx page =
            Inr (s\<lparr>swap_available := (swap_available s)[unat idx := True]\<rparr>, m') \<and>
          map m' (page_chunks page) =
            map (\<lambda>i. block_data s (idx * SECTORS_PER_PAGE + of_nat i)) [0 ..< unat SECTORS_PER_PAGE]"
proof -
  define f where "f = (\<lambda>i. page + BLOCK_SECTOR_SIZE * (of_nat i :: 32 word))"
  define g where "g = (\<lambda>i. block_data s (idx * SECTORS_PER_PAGE + of_nat i))"
  define m' where "m' = fold (\<lambda>i m'. m'(f i := g i)) [0 ..< unat SECTORS_PER_PAGE] m"
  have lt: "idx < block_size s div 8" using inv idx by (simp add: swap_inv_def spp8)
  have len: "unat idx < length (swap_available s)"
    using inv idx by (simp add: swap_inv_def word_less_nat_alt)
  have inrange: "\<forall>i \<in> set [0 ..< unat SECTORS_PER_PAGE]. idx * SECTORS_PER_PAGE + of_nat i < block_size s"
    using slot_sector_unat(2) [OF lt] by (simp add: spp8)
  have loop: "swap_in_loop s idx page [0 ..< unat SECTORS_PER_PAGE] m = Inr m'"
    using swap_in_loop_ok [OF inrange, of page m] by (simp add: m'_def f_def g_def)
  have run: "vm_swap_in m s idx page =
            Inr (s\<lparr>swap_available := (swap_available s)[unat idx := True]\<rparr>, m')"
    using kern idx len occ loop
    by (simp add: vm_swap_in_def bitmap_test_def bitmap_set_def not_less)
  have dist: "distinct (map f [0 ..< unat SECTORS_PER_PAGE])"
    unfolding f_def by (rule page_chunks_distinct)
  have "\<forall>i \<in> set [0 ..< unat SECTORS_PER_PAGE]. m' (f i) = g i"
    using fold_upd_hit [OF dist, of _ g m] by (simp add: m'_def)
  then have "map m' (map f [0 ..< unat SECTORS_PER_PAGE]) = map g [0 ..< unat SECTORS_PER_PAGE]"
    by (simp only: map_map) (rule map_cong, simp_all)
  then have "map m' (page_chunks page) = map g [0 ..< unat SECTORS_PER_PAGE]"
    by (simp add: page_chunks_def f_def)
  with run show ?thesis by (auto simp: g_def)
qed

lemma vm_swap_free_ok:
  assumes inv: "swap_inv s" and idx: "idx < swap_size s"
    and occ: "\<not> swap_available s ! unat idx"
  shows "vm_swap_free s idx = Inr (s\<lparr>swap_available := (swap_available s)[unat idx := True]\<rparr>)"
proof -
  have len: "unat idx < length (swap_available s)"
    using inv idx by (simp add: swap_inv_def word_less_nat_alt)
  with idx occ show ?thesis
    by (simp add: vm_swap_free_def bitmap_test_def bitmap_set_def)
qed

lemma hash_delete_find: "vm_supt_find (hash_delete supt page) page = None"
  by (induction supt) (auto simp: hash_delete_def vm_supt_find_def)

text \<open>
  C6. For a page whose SPT entry is \<open>ON_SWAP\<close> when it is unmapped, \<open>vm_supt_munmap\<close>
  issues one \<open>file_write_at\<close> of \<open>PGSIZE\<close> bytes at the page's offset, holding the slot's
  sectors as \<open>vm_swap_in\<close> read them into the scratch page, exactly when \<open>spte.is_dirty\<close>
  or the hardware dirty bit for \<open>upage\<close> is set, and none otherwise. In both branches the
  slot is free afterwards and the SPT entry is gone. The slot is a slot of the device and
  occupied, and a scratch page is available when one is needed.
\<close>

theorem vm_supt_munmap_on_swap:
  assumes find: "vm_supt_find (supts st supt) page = Some spte" and sw: "status spte = ON_SWAP"
    and inv: "swap_inv (swap st)" and idx: "swap_index spte < swap_size (swap st)"
    and occ: "\<not> swap_available (swap st) ! unat (swap_index spte)"
    and dirty: "dirty = (is_dirty spte \<or> pagedir_is_dirty (pagedirs st pagedir) (upage spte))"
    and pool: "dirty \<longrightarrow> (\<exists>tmp rest. kernel_pool st = tmp # rest \<and> PHYS_BASE \<le> tmp)"
  shows "\<exists>st'. vm_supt_munmap st supt pagedir page f offset bytes = Inr (st', True) \<and>
      file_writes st' = file_writes st @
        (if dirty then
           [\<lparr>w_file = f,
             w_data = map (\<lambda>i. block_data (swap st) (swap_index spte * SECTORS_PER_PAGE + of_nat i))
                        [0 ..< unat SECTORS_PER_PAGE],
             w_size = PGSIZE, w_offset = offset\<rparr>]
         else []) \<and>
      swap_available (swap st') = (swap_available (swap st))[unat (swap_index spte) := True] \<and>
      swap_available (swap st') ! unat (swap_index spte) \<and>
      vm_supt_find (supts st' supt) page = None"
proof (cases dirty)
  case False
  have len: "unat (swap_index spte) < length (swap_available (swap st))"
    using inv idx by (simp add: swap_inv_def word_less_nat_alt)
  from False dirty find sw vm_swap_free_ok [OF inv idx occ] len show ?thesis
    by (simp add: vm_supt_munmap_def munmap_finish_def hash_delete_find)
next
  case True
  with pool obtain tmp rest where kp: "kernel_pool st = tmp # rest" and kern: "PHYS_BASE \<le> tmp"
    by blast
  define st1 where "st1 = st\<lparr>kernel_pool := rest\<rparr>"
  have get: "palloc_get_page st PAL_NONE = (st1, tmp)"
    using kp by (simp add: palloc_get_page_def PAL_NONE_def st1_def)
  have s1: "swap st1 = swap st" by (simp add: st1_def)
  from vm_swap_in_ok [OF inv idx occ kern, of "mem st1"] obtain m' where
    swin: "vm_swap_in (mem st1) (swap st1) (swap_index spte) tmp =
            Inr ((swap st)\<lparr>swap_available := (swap_available (swap st))[unat (swap_index spte) := True]\<rparr>, m')"
    and data: "map m' (page_chunks tmp) =
            map (\<lambda>i. block_data (swap st) (swap_index spte * SECTORS_PER_PAGE + of_nat i))
              [0 ..< unat SECTORS_PER_PAGE]"
    by (auto simp: s1)
  have len: "unat (swap_index spte) < length (swap_available (swap st))"
    using inv idx by (simp add: swap_inv_def word_less_nat_alt)
  from True dirty find sw get swin data len show ?thesis
    by (simp add: vm_supt_munmap_def munmap_finish_def hash_delete_find file_write_at_def
        palloc_free_page_def st1_def)
qed

theorem vm_supt_munmap_on_swap_witness:
  "(\<exists>st'. vm_supt_munmap (swapped_state True) 1 1 0x10000000 107 0 4096 = Inr (st', True) \<and>
      file_writes st' =
        [\<lparr>w_file = 107, w_data = [[0], [1], [2], [3], [4], [5], [6], [7]], w_size = 4096,
          w_offset = 0\<rparr>] \<and>
      swap_available (swap st') = [True, True] \<and>
      vm_supt_find (supts st' 1) 0x10000000 = None) \<and>
   (\<exists>st'. vm_supt_munmap (swapped_state False) 1 1 0x10000000 107 0 4096 = Inr (st', True) \<and>
      file_writes st' = [] \<and>
      swap_available (swap st') = [True, True] \<and>
      vm_supt_find (supts st' 1) 0x10000000 = None)"
proof -
  define e where "e = (\<lambda>d. raw_spte\<lparr>upage := 0x10000000, status := ON_SWAP, is_dirty := d,
                                      swap_index := 0, file := 107\<rparr>)"
  have find: "\<And>d. vm_supt_find (supts (swapped_state d) 1) 0x10000000 = Some (e d)"
    by (simp add: swapped_state_def vm_supt_find_def e_def)
  have sw: "\<And>d. status (e d) = ON_SWAP" by (simp add: e_def)
  have inv: "\<And>d. swap_inv (swap (swapped_state d))"
    by (simp add: swapped_state_def swap_inv_def spp8)
  have idx: "\<And>d. swap_index (e d) < swap_size (swap (swapped_state d))"
    by (simp add: swapped_state_def e_def)
  have occ: "\<And>d. \<not> swap_available (swap (swapped_state d)) ! unat (swap_index (e d))"
    by (simp add: swapped_state_def e_def)
  have dirty: "\<And>d. d = (is_dirty (e d) \<or> pagedir_is_dirty (pagedirs (swapped_state d) 1) (upage (e d)))"
    by (simp add: swapped_state_def e_def boot_state_def pagedir_is_dirty_def)
  have pool: "\<And>d. d \<longrightarrow> (\<exists>tmp rest. kernel_pool (swapped_state d) = tmp # rest \<and> PHYS_BASE \<le> tmp)"
    by (simp add: swapped_state_def boot_state_def PHYS_BASE_def)
  note T = vm_supt_munmap_on_swap [OF find sw inv idx occ dirty pool, of _ 107 0 4096]
  have a: "\<exists>st'. vm_supt_munmap (swapped_state True) 1 1 0x10000000 107 0 4096 = Inr (st', True) \<and>
      file_writes st' =
        [\<lparr>w_file = 107, w_data = [[0], [1], [2], [3], [4], [5], [6], [7]], w_size = 4096,
          w_offset = 0\<rparr>] \<and>
      swap_available (swap st') = [True, True] \<and>
      vm_supt_find (supts st' 1) 0x10000000 = None"
  proof -
    from T [of True] obtain s1 where
      r: "vm_supt_munmap (swapped_state True) 1 1 0x10000000 107 0 4096 = Inr (s1, True)"
      and w: "file_writes s1 = file_writes (swapped_state True) @
        (if True then
           [\<lparr>w_file = 107,
             w_data = map (\<lambda>i. block_data (swap (swapped_state True))
                                  (swap_index (e True) * SECTORS_PER_PAGE + of_nat i))
                        [0 ..< unat SECTORS_PER_PAGE],
             w_size = PGSIZE, w_offset = 0\<rparr>]
         else [])"
      and av: "swap_available (swap s1) =
                 (swap_available (swap (swapped_state True)))[unat (swap_index (e True)) := True]"
      and fn: "vm_supt_find (supts s1 1) 0x10000000 = None"
      by blast
    have w': "file_writes s1 =
        [\<lparr>w_file = 107, w_data = [[0], [1], [2], [3], [4], [5], [6], [7]], w_size = 4096,
          w_offset = 0\<rparr>]"
      using w by (simp add: swapped_state_def boot_state_def e_def spp8 upt8 PGSIZE_def)
    have av': "swap_available (swap s1) = [True, True]"
      using av by (simp add: swapped_state_def e_def)
    from r w' av' fn show ?thesis by blast
  qed
  have b: "\<exists>st'. vm_supt_munmap (swapped_state False) 1 1 0x10000000 107 0 4096 = Inr (st', True) \<and>
      file_writes st' = [] \<and>
      swap_available (swap st') = [True, True] \<and>
      vm_supt_find (supts st' 1) 0x10000000 = None"
  proof -
    from T [of False] obtain s1 where
      r: "vm_supt_munmap (swapped_state False) 1 1 0x10000000 107 0 4096 = Inr (s1, True)"
      and w: "file_writes s1 = file_writes (swapped_state False) @
        (if False then
           [\<lparr>w_file = 107,
             w_data = map (\<lambda>i. block_data (swap (swapped_state False))
                                  (swap_index (e False) * SECTORS_PER_PAGE + of_nat i))
                        [0 ..< unat SECTORS_PER_PAGE],
             w_size = PGSIZE, w_offset = 0\<rparr>]
         else [])"
      and av: "swap_available (swap s1) =
                 (swap_available (swap (swapped_state False)))[unat (swap_index (e False)) := True]"
      and fn: "vm_supt_find (supts s1 1) 0x10000000 = None"
      by blast
    have w': "file_writes s1 = []"
      using w by (simp add: swapped_state_def boot_state_def)
    have av': "swap_available (swap s1) = [True, True]"
      using av by (simp add: swapped_state_def e_def)
    from r w' av' fn show ?thesis by blast
  qed
  from a b show ?thesis by blast
qed

subsection \<open>Clock eviction: the scan is bounded\<close>

lemma clock_frame_next_step:
  assumes "clock_frame_next st = Inr (st1, r)"
  shows "frame_list st1 = frame_list st \<and> pagedirs st1 = pagedirs st \<and> hand_valid st1 \<and>
         (case r of
            Ring j \<Rightarrow> j < length (frame_list st) \<and>
                      Suc (hand_dist (length (frame_list st)) (clock_ptr st1)) =
                        hand_dist (length (frame_list st)) (clock_ptr st) \<and>
                      0 < hand_dist (length (frame_list st)) (clock_ptr st1)
          | Tail \<Rightarrow> True)"
  using assms
  by (auto simp: clock_frame_next_def hand_dist_def hand_valid_def
      split: if_splits hand.splits)

lemma clock_frame_next_fault:
  "clock_frame_next st = Inl e \<Longrightarrow>
   (e = Evict_empty \<and> frame_list st = []) \<or> (e = Undefined_behaviour \<and> \<not> hand_valid st)"
  by (auto simp: clock_frame_next_def hand_valid_def split: if_splits hand.splits)

lemma evict_loop_log_length: "length (fst (evict_loop pd n i st)) \<le> n * 2 + 1 - i"
proof (induction pd n i st rule: evict_loop.induct)
  case (1 pagedir n i st)
  show ?case
  proof (cases "i \<le> n * 2")
    case False
    then show ?thesis by (subst evict_loop.simps) simp
  next
    case le: True
    show ?thesis
    proof (cases "clock_frame_next st")
      case (Inl e)
      with le show ?thesis by (subst evict_loop.simps) simp
    next
      case (Inr p)
      obtain st1 r1 where p: "p = (st1, r1)" by (cases p)
      show ?thesis
      proof (cases "fte_is_pinned (entry_at st1 r1)")
        case True
        from "1.IH"(1) [OF le Inr p [symmetric] True] le Inr p True show ?thesis
          by (subst evict_loop.simps) (simp add: cons_log_def)
      next
        case np: False
        show ?thesis
        proof (cases "pagedir_is_accessed (pagedirs st1 pagedir) (fte_upage (entry_at st1 r1))")
          case True
          from "1.IH"(2) [OF le Inr p [symmetric] np True] le Inr p np True show ?thesis
            by (subst evict_loop.simps) (simp add: cons_log_def)
        next
          case False
          with le Inr p np show ?thesis by (subst evict_loop.simps) simp
        qed
      qed
    qed
  qed
qed

lemma evict_loop_ring_count:
  "length (frame_list st) = n \<Longrightarrow> hand_dist n (clock_ptr st) \<le> n * 2 + 1 - i \<Longrightarrow>
   length (filter is_ring (fst (evict_loop pd n i st))) \<le> n * 2 - i"
proof (induction pd n i st rule: evict_loop.induct)
  case (1 pagedir n i st)
  show ?case
  proof (cases "i \<le> n * 2")
    case False
    then show ?thesis by (subst evict_loop.simps) simp
  next
    case le: True
    show ?thesis
    proof (cases "clock_frame_next st")
      case (Inl e)
      with le show ?thesis by (subst evict_loop.simps) simp
    next
      case (Inr p)
      obtain st1 r1 where p: "p = (st1, r1)" by (cases p)
      note step = clock_frame_next_step [OF Inr [unfolded p]]
      have fl1: "length (frame_list st1) = n" using step "1.prems"(1) by simp
      show ?thesis
      proof (cases r1)
        case Tail
        have len: "\<And>s. length (filter is_ring (fst (evict_loop pagedir n (i + 1) s))) \<le> n * 2 - i"
        proof -
          fix s
          have "length (filter is_ring (fst (evict_loop pagedir n (i + 1) s)))
                  \<le> length (fst (evict_loop pagedir n (i + 1) s))" by simp
          also have "\<dots> \<le> n * 2 + 1 - (i + 1)" by (rule evict_loop_log_length)
          finally show "length (filter is_ring (fst (evict_loop pagedir n (i + 1) s))) \<le> n * 2 - i"
            by simp
        qed
        from le Inr p Tail len show ?thesis
          by (subst evict_loop.simps) (simp add: cons_log_def is_ring_def)
      next
        case (Ring j)
        with step "1.prems"(1) have d: "Suc (hand_dist n (clock_ptr st1)) = hand_dist n (clock_ptr st)"
          and pos: "0 < hand_dist n (clock_ptr st1)" by simp_all
        from d pos "1.prems"(2) have i1: "i + 1 \<le> n * 2" and d1: "hand_dist n (clock_ptr st1) \<le> n * 2 + 1 - (i + 1)"
          by arith+
        show ?thesis
        proof (cases "fte_is_pinned (entry_at st1 r1)")
          case True
          from "1.IH"(1) [OF le Inr p [symmetric] True fl1 d1]
          have "length (filter is_ring (fst (evict_loop pagedir n (i + 1) st1))) \<le> n * 2 - (i + 1)" .
          with le Inr p True Ring i1 show ?thesis
            by (subst evict_loop.simps) (simp add: cons_log_def is_ring_def)
        next
          case np: False
          show ?thesis
          proof (cases "pagedir_is_accessed (pagedirs st1 pagedir) (fte_upage (entry_at st1 r1))")
            case True
            define st2 where "st2 = st1\<lparr>pagedirs := (pagedirs st1)
                    (pagedir := pagedir_set_accessed (pagedirs st1 pagedir)
                                  (fte_upage (entry_at st1 r1)) False)\<rparr>"
            have "length (frame_list st2) = n" "hand_dist n (clock_ptr st2) \<le> n * 2 + 1 - (i + 1)"
              using fl1 d1 by (simp_all add: st2_def)
            from "1.IH"(2) [OF le Inr p [symmetric] np True this [unfolded st2_def]]
            have "length (filter is_ring (fst (evict_loop pagedir n (i + 1) st2))) \<le> n * 2 - (i + 1)"
              by (simp add: st2_def)
            with le Inr p np True Ring i1 show ?thesis
              by (subst evict_loop.simps) (simp add: cons_log_def is_ring_def st2_def)
          next
            case False
            with le Inr p np Ring i1 show ?thesis
              by (subst evict_loop.simps) (simp add: is_ring_def)
          qed
        qed
      qed
    qed
  qed
qed

lemma evict_loop_outcome:
  "hand_valid st \<Longrightarrow> frame_list st \<noteq> [] \<Longrightarrow>
   (case snd (evict_loop pd n i st) of
      Inl e \<Rightarrow> e = Cannot_evict \<and> length (fst (evict_loop pd n i st)) = n * 2 + 1 - i
    | Inr (st', r) \<Rightarrow>
        fst (evict_loop pd n i st) \<noteq> [] \<and> last (fst (evict_loop pd n i st)) = r \<and>
        \<not> fte_is_pinned (entry_at st' r) \<and>
        \<not> pagedir_is_accessed (pagedirs st' pd) (fte_upage (entry_at st' r)))"
proof (induction pd n i st rule: evict_loop.induct)
  case (1 pagedir n i st)
  show ?case
  proof (cases "i \<le> n * 2")
    case False
    then show ?thesis by (subst (1 2 3 4) evict_loop.simps) simp
  next
    case le: True
    show ?thesis
    proof (cases "clock_frame_next st")
      case (Inl e)
      with clock_frame_next_fault [OF Inl] "1.prems" show ?thesis by simp
    next
      case (Inr p)
      obtain st1 r1 where p: "p = (st1, r1)" by (cases p)
      note step = clock_frame_next_step [OF Inr [unfolded p]]
      have v1: "hand_valid st1" "frame_list st1 \<noteq> []" using step "1.prems" by simp_all
      show ?thesis
      proof (cases "fte_is_pinned (entry_at st1 r1)")
        case True
        have unf: "evict_loop pagedir n i st = cons_log r1 (evict_loop pagedir n (i + 1) st1)"
          using le Inr p True by (subst evict_loop.simps) simp
        from "1.IH"(1) [OF le Inr p [symmetric] True v1] le show ?thesis
          unfolding unf by (auto simp: cons_log_def split: sum.splits)
      next
        case np: False
        show ?thesis
        proof (cases "pagedir_is_accessed (pagedirs st1 pagedir) (fte_upage (entry_at st1 r1))")
          case True
          define st2 where "st2 = st1\<lparr>pagedirs := (pagedirs st1)
                    (pagedir := pagedir_set_accessed (pagedirs st1 pagedir)
                                  (fte_upage (entry_at st1 r1)) False)\<rparr>"
          have v2: "hand_valid st2" "frame_list st2 \<noteq> []"
            using v1 by (auto simp: st2_def hand_valid_def split: hand.splits)
          have unf: "evict_loop pagedir n i st = cons_log r1 (evict_loop pagedir n (i + 1) st2)"
            using le Inr p np True by (subst evict_loop.simps) (simp add: st2_def)
          from "1.IH"(2) [OF le Inr p [symmetric] np True v2 [unfolded st2_def]] le show ?thesis
            unfolding unf st2_def by (auto simp: cons_log_def split: sum.splits)
        next
          case False
          have unf: "evict_loop pagedir n i st = ([r1], Inr (st1, r1))"
            using le Inr p np False by (subst evict_loop.simps) simp
          show ?thesis unfolding unf using np False by simp
        qed
      qed
    qed
  qed
qed

text \<open>
  C4. \<open>frame_to_be_evicted\<close> always returns. With \<open>N\<close> the number of frame-table entries
  at the start, the scan reads at most \<open>2 * N\<close> entries of the ring: the loop advances
  the hand at most \<open>2 * N + 1\<close> times, and an advance past the last node lands on the
  list's tail sentinel before it wraps. When the hand points into the list, the outcome is
  either an entry that is not pinned and whose accessed bit (as consulted) is clear, or the
  panic: for an empty table at once, otherwise after all \<open>2 * N + 1\<close> advances found
  nothing.
\<close>

theorem frame_to_be_evicted_bounded:
  "length (filter is_ring (fst (frame_to_be_evicted pd st))) \<le> 2 * length (frame_list st) \<and>
   length (fst (frame_to_be_evicted pd st)) \<le> 2 * length (frame_list st) + 1 \<and>
   (hand_valid st \<longrightarrow>
      (case snd (frame_to_be_evicted pd st) of
         Inl e \<Rightarrow>
           (e = Evict_empty \<and> frame_list st = []) \<or>
           (e = Cannot_evict \<and>
            length (fst (frame_to_be_evicted pd st)) = 2 * length (frame_list st) + 1)
       | Inr (st', r) \<Rightarrow>
           fst (frame_to_be_evicted pd st) \<noteq> [] \<and> last (fst (frame_to_be_evicted pd st)) = r \<and>
           \<not> fte_is_pinned (entry_at st' r) \<and>
           \<not> pagedir_is_accessed (pagedirs st' pd) (fte_upage (entry_at st' r))))"
proof (cases "frame_list st = []")
  case True
  then show ?thesis by (simp add: frame_to_be_evicted_def)
next
  case False
  define n where "n = length (frame_list st)"
  have unf: "frame_to_be_evicted pd st = evict_loop pd n 0 st"
    using False by (simp add: frame_to_be_evicted_def n_def)
  have "hand_dist n (clock_ptr st) \<le> n * 2 + 1 - 0"
    by (auto simp: hand_dist_def split: hand.splits)
  from evict_loop_ring_count [OF n_def [symmetric] this, of pd]
  have a: "length (filter is_ring (fst (evict_loop pd n 0 st))) \<le> 2 * n" by (simp add: mult.commute)
  have b: "length (fst (evict_loop pd n 0 st)) \<le> 2 * n + 1"
    using evict_loop_log_length [of pd n 0 st] by (simp add: mult.commute)
  have c: "hand_valid st \<longrightarrow>
      (case snd (evict_loop pd n 0 st) of
         Inl e \<Rightarrow>
           (e = Evict_empty \<and> frame_list st = []) \<or>
           (e = Cannot_evict \<and> length (fst (evict_loop pd n 0 st)) = 2 * n + 1)
       | Inr (st', r) \<Rightarrow>
           fst (evict_loop pd n 0 st) \<noteq> [] \<and> last (fst (evict_loop pd n 0 st)) = r \<and>
           \<not> fte_is_pinned (entry_at st' r) \<and>
           \<not> pagedir_is_accessed (pagedirs st' pd) (fte_upage (entry_at st' r)))"
  proof
    assume v: "hand_valid st"
    from evict_loop_outcome [OF v False, of pd n 0] show
      "case snd (evict_loop pd n 0 st) of
         Inl e \<Rightarrow>
           (e = Evict_empty \<and> frame_list st = []) \<or>
           (e = Cannot_evict \<and> length (fst (evict_loop pd n 0 st)) = 2 * n + 1)
       | Inr (st', r) \<Rightarrow>
           fst (evict_loop pd n 0 st) \<noteq> [] \<and> last (fst (evict_loop pd n 0 st)) = r \<and>
           \<not> fte_is_pinned (entry_at st' r) \<and>
           \<not> pagedir_is_accessed (pagedirs st' pd) (fte_upage (entry_at st' r))"
      by (auto simp: mult.commute split: sum.splits)
  qed
  from a b c show ?thesis unfolding unf n_def by blast
qed

text \<open>One pinned frame: three advances, two of them on the entry, then the panic.\<close>

lemma scan_pinned_state:
  "frame_to_be_evicted 1 pinned_state = ([Ring 0, Tail, Ring 0], Inl Cannot_evict)"
  by (simp add: model_defs fixture_defs pinned_state_def)

theorem frame_to_be_evicted_bounded_witness:
  "hand_valid pinned_state \<and> length (frame_list pinned_state) = 1 \<and>
   fst (frame_to_be_evicted 1 pinned_state) = [Ring 0, Tail, Ring 0] \<and>
   snd (frame_to_be_evicted 1 pinned_state) = Inl Cannot_evict \<and>
   length (filter is_ring (fst (frame_to_be_evicted 1 pinned_state))) \<le> 2 \<and>
   length (fst (frame_to_be_evicted 1 pinned_state)) = 3 \<and>
   hand_valid full_state \<and> length (frame_list full_state) = 2 \<and>
   fst (frame_to_be_evicted 1 full_state) = [Ring 0] \<and>
   (\<exists>st'. snd (frame_to_be_evicted 1 full_state) = Inr (st', Ring 0) \<and>
          \<not> fte_is_pinned (entry_at st' (Ring 0)))"
proof -
  have v: "hand_valid pinned_state" "hand_valid full_state"
    by (simp_all add: hand_valid_def pinned_state_def full_state_def boot_state_def)
  have l: "length (frame_list pinned_state) = 1" "length (frame_list full_state) = 2"
    by (simp_all add: pinned_state_def full_state_def)
  note P = frame_to_be_evicted_bounded [of 1 pinned_state]
  note F = frame_to_be_evicted_bounded [of 1 full_state]
  have p1: "length (filter is_ring (fst (frame_to_be_evicted 1 pinned_state))) \<le> 2"
    using P l by simp
  have p2: "length (fst (frame_to_be_evicted 1 pinned_state)) = 3"
    using P v l by (simp add: scan_pinned_state)
  have f1: "\<exists>st'. snd (frame_to_be_evicted 1 full_state) = Inr (st', Ring 0) \<and>
          \<not> fte_is_pinned (entry_at st' (Ring 0))"
    using F v by (simp add: scan_full_state)
  from v l p1 p2 f1 show ?thesis by (simp add: scan_pinned_state scan_full_state)
qed

subsection \<open>Clock eviction: whose accessed bit is consulted\<close>

text \<open>
  C1. The scan is given the running thread's page directory and consults the accessed
  bit there, whoever owns the entry. In \<open>full_state\<close> thread 1 runs and both frames
  belong to thread 2, whose page directory has the accessed bit set for the first entry's
  page and clear for the second's. The scan looks at the first entry only and returns it;
  the accessed bit in the owner's page directory is still set afterwards. Had the owner's
  bit been consulted, the first entry would have been passed over and the second chosen.
\<close>

theorem clock_scan_consults_running_threads_pagedir:
  "current full_state = 1 \<and> fte_t (frame_list full_state ! 0) = 2 \<and>
   t_pagedir (threads full_state 1) \<noteq> t_pagedir (threads full_state 2) \<and>
   \<not> fte_is_pinned (frame_list full_state ! 0) \<and>
   pagedir_is_accessed (pagedirs full_state (t_pagedir (threads full_state 2)))
     (fte_upage (frame_list full_state ! 0)) \<and>
   \<not> pagedir_is_accessed (pagedirs full_state (t_pagedir (threads full_state 2)))
     (fte_upage (frame_list full_state ! 1)) \<and>
   fst (frame_to_be_evicted (t_pagedir (threads full_state (current full_state))) full_state) =
     [Ring 0] \<and>
   (\<exists>st'. snd (frame_to_be_evicted (t_pagedir (threads full_state (current full_state)))
                 full_state) = Inr (st', Ring 0) \<and>
          pagedir_is_accessed (pagedirs st' (t_pagedir (threads st' 2)))
            (fte_upage (frame_list st' ! 0)))"
  by (simp add: model_defs fixture_defs)

end
